theory Spec2Isabelle
  imports Complex_Main "HOL-Library.Multiset" "HOL-Library.Word"
begin

section \<open>Data model of \<open>internal/services/ip_service.go\<close>\<close>

text \<open>
  Go's \<open>error\<close> values are messages; \<open>nil\<close> is the absence of one. A function returning
  \<open>(T, error)\<close> is a function into \<open>error + T\<close>. Wall-clock instants are nanosecond counts.
  A \<open>context.Context\<close> is either the background context or the context of an HTTP request.
\<close>

datatype error = Error string

type_synonym time = nat

datatype "context" = Background | Request nat

text \<open>
  A \<open>float64\<close> is a number, not-a-number or an infinity; rounding is not modelled.
\<close>

datatype float64 = Float real | NaN | PosInf | NegInf

type_synonym net_IP = "8 word list"

record GeoInfo =
  Country :: string
  CountryCode :: string
  Region :: string
  RegionCode :: string
  City :: string
  Postal :: string
  Latitude :: float64
  Longitude :: float64
  Timezone :: string

record ISPInfo =
  Provider :: string
  Organization :: string
  ASN :: string
  ASNName :: string
  isp_Domain :: string

record SecInfo =
  IsProxy :: bool
  IsVPN :: bool
  IsTor :: bool
  IsThreat :: bool
  RiskScore :: int
  Reputation :: string

record DNSInfo =
  Hostname :: string
  PTR :: "string list"

record IPInfo =
  IP :: string
  Version :: string
  Type :: string
  Geolocation :: "GeoInfo option"
  ISP :: "ISPInfo option"
  Security :: "SecInfo option"
  DNS :: "DNSInfo option"
  Timestamp :: time

record DNSRecord =
  Name :: string
  rec_Type :: string
  Value :: string
  TTL :: int

record DNSLookupResult =
  Domain :: string
  Records :: "DNSRecord list"
  dns_Timestamp :: time
  QueryTime :: int

record Options =
  IncludeGeolocation :: bool
  IncludeSecurity :: bool
  IncludeDNS :: bool
  IncludePerformance :: bool

record BulkAnalysisRequest =
  IPs :: "string list"
  options :: Options

record Summary =
  Total :: int
  Successful :: int
  Failed :: int
  Duration :: float64

record BulkAnalysisResult =
  Results :: "IPInfo list"
  summary :: Summary
  bulk_Timestamp :: time

text \<open>
  Records of the standard library that the service reads: mail exchangers and name
  servers, an HTTP request and response, and the two anonymous structs into which the
  answer of ipinfo.io is decoded.
\<close>

record MX =
  mx_Host :: string
  Pref :: "16 word"

record NS =
  ns_Host :: string

record http_Request =
  req_ctx :: "context"
  req_Method :: string
  req_URL :: string

record http_Response =
  StatusCode :: int
  Body :: string

record geo_data =
  data_Country :: string
  data_Region :: string
  data_City :: string
  data_Postal :: string
  data_Loc :: string
  data_Timezone :: string
  data_Org :: string

record isp_data =
  isp_Org :: string
  isp_Hostname :: string

section \<open>The environment: standard library and network\<close>

text \<open>
  Everything the service asks of the standard library and of the network is a field of
  the environment, and every theorem below holds for every environment. Each such call
  is taken to return, with a value or with an error. The answers of the network may
  depend on the instant of the question. The JSON decoder is given per target type;
  \<open>fmt.Sscanf\<close> with \<open>%f\<close> yields a \<open>float64\<close> or an error; \<open>strings.Fields\<close> and the
  upper-casing of non-ASCII strings follow the Unicode tables of the library.
\<close>

record env =
  net_ParseIP :: "string \<Rightarrow> net_IP option"
  To4 :: "net_IP \<Rightarrow> net_IP option"
  IsPrivate :: "net_IP \<Rightarrow> bool"
  IsLoopback :: "net_IP \<Rightarrow> bool"
  IsMulticast :: "net_IP \<Rightarrow> bool"
  IsLinkLocalUnicast :: "net_IP \<Rightarrow> bool"
  ip_String :: "net_IP \<Rightarrow> string"
  unicode_ToUpper :: "string \<Rightarrow> string"
  strings_Fields :: "string \<Rightarrow> string list"
  fmt_Sscanf_f :: "string \<Rightarrow> error + float64"
  http_NewRequestWithContext :: "context \<Rightarrow> string \<Rightarrow> string \<Rightarrow> error + http_Request"
  httpClient_Do :: "time \<Rightarrow> http_Request \<Rightarrow> error + http_Response"
  json_Decode_geo :: "string \<Rightarrow> error + geo_data"
  json_Decode_isp :: "string \<Rightarrow> error + isp_data"
  net_LookupAddr :: "time \<Rightarrow> string \<Rightarrow> error + string list"
  net_LookupIP :: "time \<Rightarrow> string \<Rightarrow> error + net_IP list"
  net_LookupMX :: "time \<Rightarrow> string \<Rightarrow> error + MX list"
  net_LookupNS :: "time \<Rightarrow> string \<Rightarrow> error + NS list"
  net_LookupTXT :: "time \<Rightarrow> string \<Rightarrow> error + string list"
  net_LookupCNAME :: "time \<Rightarrow> string \<Rightarrow> error + string"

section \<open>Single IP analysis\<close>

definition getIPVersion :: "env \<Rightarrow> net_IP \<Rightarrow> string" where
  "getIPVersion e ip = (if To4 e ip \<noteq> None then ''IPv4'' else ''IPv6'')"

definition getIPType :: "env \<Rightarrow> net_IP \<Rightarrow> string" where
  "getIPType e ip =
     (if IsPrivate e ip then ''private''
      else if IsLoopback e ip then ''loopback''
      else if IsMulticast e ip then ''multicast''
      else if IsLinkLocalUnicast e ip then ''link-local''
      else ''public'')"

text \<open>\<open>fmt.Sprintf("%d", n)\<close> for an unsigned number: its decimal digits.\<close>

function decimal :: "nat \<Rightarrow> string" where
  "decimal n = (if n < 10 then [char_of (48 + n)] else decimal (n div 10) @ [char_of (48 + n mod 10)])"
  by pat_completeness auto
termination
  by (relation "measure (\<lambda>n. n)") auto

declare decimal.simps [simp del]

definition decimal_int :: "int \<Rightarrow> string" where
  "decimal_int i = (if i < 0 then ''-'' @ decimal (nat (- i)) else decimal (nat i))"

text \<open>\<open>strings.Split\<close> on a one-byte separator, \<open>strings.Join\<close>, \<open>strings.HasPrefix\<close>.\<close>

fun Split :: "string \<Rightarrow> char \<Rightarrow> string list" where
  "Split [] sep = [[]]"
| "Split (x # xs) sep =
     (if x = sep then [] # Split xs sep
      else (case Split xs sep of [] \<Rightarrow> [[x]] | p # ps \<Rightarrow> (x # p) # ps))"

fun Join :: "string list \<Rightarrow> string \<Rightarrow> string" where
  "Join [] sep = []"
| "Join [x] sep = x"
| "Join (x # y # ys) sep = x @ sep @ Join (y # ys) sep"

definition HasPrefix :: "string \<Rightarrow> string \<Rightarrow> bool" where
  "HasPrefix s prefix = (take (length prefix) s = prefix)"

definition parseFloat :: "env \<Rightarrow> string \<Rightarrow> error + float64" where
  "parseFloat e s = (case fmt_Sscanf_f e s of Inl err \<Rightarrow> Inl err | Inr f \<Rightarrow> Inr f)"

definition getGeolocation :: "env \<Rightarrow> time \<Rightarrow> context \<Rightarrow> string \<Rightarrow> error + GeoInfo" where
  "getGeolocation e now ctx ip =
     (case http_NewRequestWithContext e ctx ''GET'' (''https://ipinfo.io/'' @ ip @ ''/json'') of
        Inl err \<Rightarrow> Inl err
      | Inr req \<Rightarrow>
     (case httpClient_Do e now req of
        Inl err \<Rightarrow> Inl err
      | Inr resp \<Rightarrow>
          if StatusCode resp \<noteq> 200
          then Inl (Error (''geolocation API returned status '' @ decimal_int (StatusCode resp)))
          else
     (case json_Decode_geo e (Body resp) of
        Inl err \<Rightarrow> Inl err
      | Inr data \<Rightarrow>
          let geo = \<lparr>Country = data_Country data, CountryCode = data_Country data,
                     Region = data_Region data, RegionCode = [], City = data_City data,
                     Postal = data_Postal data, Latitude = Float 0, Longitude = Float 0,
                     Timezone = data_Timezone data\<rparr>;
              parts = Split (data_Loc data) CHR '',''
          in if data_Loc data \<noteq> [] \<and> length parts = 2
             then let geo = (case parseFloat e (parts ! 0) of
                               Inr lat \<Rightarrow> geo\<lparr>Latitude := lat\<rparr> | Inl _ \<Rightarrow> geo);
                      geo = (case parseFloat e (parts ! 1) of
                               Inr lng \<Rightarrow> geo\<lparr>Longitude := lng\<rparr> | Inl _ \<Rightarrow> geo)
                  in Inr geo
             else Inr geo)))"

definition getISPInfo :: "env \<Rightarrow> time \<Rightarrow> context \<Rightarrow> string \<Rightarrow> error + ISPInfo" where
  "getISPInfo e now ctx ip =
     (case http_NewRequestWithContext e ctx ''GET'' (''https://ipinfo.io/'' @ ip @ ''/json'') of
        Inl err \<Rightarrow> Inl err
      | Inr req \<Rightarrow>
     (case httpClient_Do e now req of
        Inl err \<Rightarrow> Inl err
      | Inr resp \<Rightarrow>
     (case json_Decode_isp e (Body resp) of
        Inl err \<Rightarrow> Inl err
      | Inr data \<Rightarrow>
          let isp = \<lparr>Provider = [], Organization = [], ASN = [], ASNName = [], isp_Domain = []\<rparr>;
              parts = strings_Fields e (isp_Org data);
              isp = (if isp_Org data \<noteq> []
                     then if length parts > 0 \<and> HasPrefix (parts ! 0) ''AS''
                          then let isp = isp\<lparr>ASN := parts ! 0\<rparr>
                               in if length parts > 1
                                  then isp\<lparr>Provider := Join (drop 1 parts) '' '',
                                           ASNName := Join (drop 1 parts) '' ''\<rparr>
                                  else isp
                          else isp\<lparr>Provider := isp_Org data\<rparr>
                     else isp);
              hparts = Split (isp_Hostname data) CHR ''.''
          in if isp_Hostname data \<noteq> [] \<and> length hparts \<ge> 2
             then Inr (isp\<lparr>isp_Domain := Join (drop (length hparts - 2) hparts) ''.''\<rparr>)
             else Inr isp)))"

definition getDNSInfo :: "env \<Rightarrow> time \<Rightarrow> context \<Rightarrow> string \<Rightarrow> error + DNSInfo" where
  \<comment> \<open>The context is a parameter of the source function and is not used by it.\<close>
  "getDNSInfo e now ctx ip =
     (case net_LookupAddr e now ip of
        Inl err \<Rightarrow> Inl err
      | Inr names \<Rightarrow>
          Inr \<lparr>Hostname = (case names of [] \<Rightarrow> [] | n # _ \<Rightarrow> n), PTR = names\<rparr>)"

definition getSecurityInfo :: "env \<Rightarrow> net_IP \<Rightarrow> SecInfo" where
  "getSecurityInfo e ip =
     (let security = \<lparr>IsProxy = False, IsVPN = False, IsTor = False, IsThreat = False,
                      RiskScore = 0, Reputation = ''neutral''\<rparr>
      in if IsPrivate e ip
         then security\<lparr>RiskScore := 10, Reputation := ''good''\<rparr>
         else security)"

definition AnalyzeIP :: "env \<Rightarrow> time \<Rightarrow> context \<Rightarrow> string \<Rightarrow> error + IPInfo" where
  "AnalyzeIP e now ctx ipStr =
     (case net_ParseIP e ipStr of
        None \<Rightarrow> Inl (Error (''invalid IP address: '' @ ipStr))
      | Some ip \<Rightarrow>
          let info = \<lparr>IP = ipStr, Version = getIPVersion e ip, Type = getIPType e ip,
                      Geolocation = None, ISP = None, Security = None, DNS = None,
                      Timestamp = now\<rparr>;
              info = (case getGeolocation e now ctx ipStr of
                        Inr geo \<Rightarrow> info\<lparr>Geolocation := Some geo\<rparr> | Inl _ \<Rightarrow> info);
              info = (case getISPInfo e now ctx ipStr of
                        Inr isp \<Rightarrow> info\<lparr>ISP := Some isp\<rparr> | Inl _ \<Rightarrow> info);
              info = (case getDNSInfo e now ctx ipStr of
                        Inr dns \<Rightarrow> info\<lparr>DNS := Some dns\<rparr> | Inl _ \<Rightarrow> info)
          in Inr (info\<lparr>Security := Some (getSecurityInfo e ip)\<rparr>))"

section \<open>DNS lookups\<close>

definition lookupA :: "env \<Rightarrow> time \<Rightarrow> string \<Rightarrow> error + DNSRecord list" where
  "lookupA e now domain =
     (case net_LookupIP e now domain of
        Inl err \<Rightarrow> Inl err
      | Inr ips \<Rightarrow>
          Inr (map (\<lambda>ip. \<lparr>Name = domain, rec_Type = ''A'', Value = ip_String e ip, TTL = 300\<rparr>)
                 (filter (\<lambda>ip. To4 e ip \<noteq> None) ips)))"

definition lookupAAAA :: "env \<Rightarrow> time \<Rightarrow> string \<Rightarrow> error + DNSRecord list" where
  "lookupAAAA e now domain =
     (case net_LookupIP e now domain of
        Inl err \<Rightarrow> Inl err
      | Inr ips \<Rightarrow>
          Inr (map (\<lambda>ip. \<lparr>Name = domain, rec_Type = ''AAAA'', Value = ip_String e ip, TTL = 300\<rparr>)
                 (filter (\<lambda>ip. To4 e ip = None) ips)))"

definition lookupMX :: "env \<Rightarrow> time \<Rightarrow> string \<Rightarrow> error + DNSRecord list" where
  "lookupMX e now domain =
     (case net_LookupMX e now domain of
        Inl err \<Rightarrow> Inl err
      | Inr mxRecords \<Rightarrow>
          Inr (map (\<lambda>mx. \<lparr>Name = domain, rec_Type = ''MX'',
                           Value = decimal (unat (Pref mx)) @ '' '' @ mx_Host mx, TTL = 300\<rparr>)
                 mxRecords))"

definition lookupNS :: "env \<Rightarrow> time \<Rightarrow> string \<Rightarrow> error + DNSRecord list" where
  "lookupNS e now domain =
     (case net_LookupNS e now domain of
        Inl err \<Rightarrow> Inl err
      | Inr nsRecords \<Rightarrow>
          Inr (map (\<lambda>ns. \<lparr>Name = domain, rec_Type = ''NS'', Value = ns_Host ns, TTL = 300\<rparr>)
                 nsRecords))"

definition lookupTXT :: "env \<Rightarrow> time \<Rightarrow> string \<Rightarrow> error + DNSRecord list" where
  "lookupTXT e now domain =
     (case net_LookupTXT e now domain of
        Inl err \<Rightarrow> Inl err
      | Inr txtRecords \<Rightarrow>
          Inr (map (\<lambda>txt. \<lparr>Name = domain, rec_Type = ''TXT'', Value = txt, TTL = 300\<rparr>)
                 txtRecords))"

definition lookupCNAME :: "env \<Rightarrow> time \<Rightarrow> string \<Rightarrow> error + DNSRecord list" where
  "lookupCNAME e now domain =
     (case net_LookupCNAME e now domain of
        Inl err \<Rightarrow> Inl err
      | Inr cname \<Rightarrow>
          Inr [\<lparr>Name = domain, rec_Type = ''CNAME'', Value = cname, TTL = 300\<rparr>])"

definition lookupPTR :: "env \<Rightarrow> time \<Rightarrow> string \<Rightarrow> error + DNSRecord list" where
  "lookupPTR e now domain =
     (case net_LookupAddr e now domain of
        Inl err \<Rightarrow> Inl err
      | Inr names \<Rightarrow>
          Inr (map (\<lambda>name. \<lparr>Name = domain, rec_Type = ''PTR'', Value = name, TTL = 300\<rparr>)
                 names))"

text \<open>
  \<open>strings.ToUpper\<close>: on a string of ASCII bytes the letters \<open>a\<close> to \<open>z\<close> are moved to
  \<open>A\<close> to \<open>Z\<close>; any other string goes through the Unicode tables of the library.
\<close>

definition ascii_upper :: "char \<Rightarrow> char" where
  "ascii_upper c =
     (if 97 \<le> (of_char c :: nat) \<and> (of_char c :: nat) \<le> 122
      then char_of ((of_char c :: nat) - 32) else c)"

definition ToUpper :: "env \<Rightarrow> string \<Rightarrow> string" where
  "ToUpper e s =
     (if list_all (\<lambda>c. (of_char c :: nat) < 128) s then map ascii_upper s
      else unicode_ToUpper e s)"

definition msg :: "error \<Rightarrow> string" where
  "msg err = (case err of Error m \<Rightarrow> m)"

text \<open>
  The goroutines of \<open>lookupAll\<close> each send one slice on a channel with room for all of
  them, and the caller receives as many slices as it started goroutines. The order in
  which the slices arrive is the scheduler's: \<open>arrival\<close> takes, for each receive, the
  scheduler's choice among the slices still to come (once the choices run out, the rest
  arrive in the order the goroutines were started). The scheduler also fixes the instants
  at which each goroutine's lookup begins and ends.
\<close>

primrec arrival :: "nat list \<Rightarrow> 'a list \<Rightarrow> 'a list" where
  "arrival [] xs = xs"
| "arrival (c # cs) xs =
     (if xs = [] then []
      else (xs ! (c mod length xs))
           # arrival cs (take (c mod length xs) xs @ drop (Suc (c mod length xs)) xs))"

record dns_sched =
  order :: "nat list"
  began :: "string \<Rightarrow> time"
  ended :: "string \<Rightarrow> time"

text \<open>
  The tail of \<open>LookupDNS\<close> after its \<open>switch\<close>: a failed lookup is wrapped and returned,
  a successful one fills in the records and the query time in milliseconds.
\<close>

definition finish :: "DNSLookupResult \<Rightarrow> time \<Rightarrow> time \<Rightarrow> error + DNSRecord list
    \<Rightarrow> error + DNSLookupResult" where
  "finish result start fin r =
     (case r of
        Inl err \<Rightarrow> Inl (Error (''DNS lookup failed: '' @ msg err))
      | Inr records \<Rightarrow>
          Inr (result\<lparr>Records := records, QueryTime := int ((fin - start) div 1000000)\<rparr>))"

definition types :: "string list" where
  "types = [''A'', ''AAAA'', ''MX'', ''NS'', ''TXT'', ''CNAME'']"

text \<open>
  What one goroutine of \<open>lookupAll\<close> puts on the channel: the records of its lookup, or
  an empty slice when the lookup failed.
\<close>

definition sent_by :: "error + DNSLookupResult \<Rightarrow> DNSRecord list" where
  "sent_by r = (case r of Inr records \<Rightarrow> Records records | Inl _ \<Rightarrow> [])"

text \<open>
  The body of \<open>lookupAll\<close>, with the method \<open>s.LookupDNS\<close> that its goroutines call as
  a parameter (context, domain, record type) and the order of arrival of their slices.
  \<open>lookupAll\<close> below is this body with \<open>LookupDNS\<close> itself for the method; the rule
  after it says that the body calls the method on the six types only.
\<close>

definition lookupAll_with ::
  "(context \<Rightarrow> string \<Rightarrow> string \<Rightarrow> error + DNSLookupResult) \<Rightarrow> nat list \<Rightarrow> string
   \<Rightarrow> error + DNSRecord list" where
  "lookupAll_with LookupDNS' ord domain =
     (let sent = map (\<lambda>rType. sent_by (LookupDNS' Background domain rType)) types;
          received = arrival ord sent
      in Inr (foldl (@) [] received))"

lemma lookupAll_with_cong [fundef_cong]:
  "ord = ord' \<Longrightarrow> domain = domain' \<Longrightarrow>
   (\<And>rType. rType \<in> set types \<Longrightarrow> f Background domain' rType = g Background domain' rType) \<Longrightarrow>
   lookupAll_with f ord domain = lookupAll_with g ord' domain'"
  by (simp add: lookupAll_with_def cong: map_cong)

function LookupDNS :: "env \<Rightarrow> dns_sched \<Rightarrow> time \<Rightarrow> time \<Rightarrow> context \<Rightarrow> string \<Rightarrow> string
      \<Rightarrow> error + DNSLookupResult"
  and lookupAll :: "env \<Rightarrow> dns_sched \<Rightarrow> string \<Rightarrow> error + DNSRecord list"
where
  "LookupDNS e sch start fin ctx domain recordType =
     (let result = \<lparr>Domain = domain, Records = [], dns_Timestamp = start, QueryTime = 0\<rparr>
      in if domain = [] then Inl (Error ''domain cannot be empty'')
         else if ToUpper e recordType = ''A'' then finish result start fin (lookupA e start domain)
         else if ToUpper e recordType = ''AAAA'' then finish result start fin (lookupAAAA e start domain)
         else if ToUpper e recordType = ''MX'' then finish result start fin (lookupMX e start domain)
         else if ToUpper e recordType = ''NS'' then finish result start fin (lookupNS e start domain)
         else if ToUpper e recordType = ''TXT'' then finish result start fin (lookupTXT e start domain)
         else if ToUpper e recordType = ''CNAME'' then finish result start fin (lookupCNAME e start domain)
         else if ToUpper e recordType = ''PTR'' then finish result start fin (lookupPTR e start domain)
         else if ToUpper e recordType = ''ALL'' then finish result start fin (lookupAll e sch domain)
         else Inl (Error (''unsupported record type: '' @ recordType)))"
| "lookupAll e sch domain =
     lookupAll_with
       (\<lambda>ctx domain rType. LookupDNS e sch (began sch rType) (ended sch rType) ctx domain rType)
       (order sch) domain"
  by pat_completeness auto
termination
  by (relation "measure (\<lambda>x. case x of
          Inl (e, sch, start, fin, ctx, domain, recordType) \<Rightarrow>
            (if ToUpper e recordType = ''ALL'' then 2 else 0)
        | Inr _ \<Rightarrow> 1)")
     (auto simp: types_def ToUpper_def ascii_upper_def)

declare LookupDNS.simps [simp del] lookupAll.simps [simp del]

section \<open>Bulk analysis: the goroutines of \<open>BulkAnalyzeIPs\<close>\<close>

text \<open>
  \<open>BulkAnalyzeIPs\<close> starts one goroutine per address and then receives one result per
  address. The model is the interleaving of the main function with its goroutines, one
  statement at a time. A goroutine is at one of five places: before the send that
  acquires the semaphore, before the call of \<open>AnalyzeIP\<close>, before the send of its result
  (which it holds), before the deferred receive that releases the semaphore, or done.
\<close>

record analysisResult =
  info :: IPInfo
  err :: "error option"

datatype gpc = Acquire | Analyze | Send analysisResult | Release | Done

record goroutine =
  targetIP :: string
  pc :: gpc

datatype mpc = Begin | Spawning nat | Collecting nat | Returned

text \<open>
  The state: the arguments \<open>ctx\<close> and \<open>request\<close>, the clock, the place of the main
  function, its local variables, the two channels with their contents, the goroutines
  in the order they were started, the value returned once the function has returned,
  and a log of the arguments of every \<open>AnalyzeIP\<close> call made so far.
\<close>

record bulk_state =
  ctx :: "context"
  request :: BulkAnalysisRequest
  clock :: time
  main :: mpc
  startTime :: time
  result :: BulkAnalysisResult
  resultChan :: "analysisResult list"
  semaphore :: "unit list"
  goroutines :: "goroutine list"
  returned :: "(error + BulkAnalysisResult) option"
  calls :: "(context \<times> string) list"

definition init :: "time \<Rightarrow> context \<Rightarrow> BulkAnalysisRequest \<Rightarrow> bulk_state" where
  "init t0 c req =
     \<lparr>ctx = c, request = req, clock = t0, main = Begin, startTime = 0,
      result = \<lparr>Results = [],
                summary = \<lparr>Total = 0, Successful = 0, Failed = 0, Duration = Float 0\<rparr>,
                bulk_Timestamp = 0\<rparr>,
      resultChan = [], semaphore = [], goroutines = [], returned = None, calls = []\<rparr>"

text \<open>The body of a goroutine between acquiring the semaphore and sending.\<close>

definition analyse :: "env \<Rightarrow> time \<Rightarrow> context \<Rightarrow> string \<Rightarrow> analysisResult" where
  "analyse e now c targetIP' =
     (case AnalyzeIP e now c targetIP' of
        Inr i \<Rightarrow> \<lparr>info = i, err = None\<rparr>
      | Inl er \<Rightarrow>
          \<lparr>info = \<lparr>IP = targetIP', Version = ''Unknown'', Type = ''error'',
                    Geolocation = None, ISP = None, Security = None, DNS = None,
                    Timestamp = now\<rparr>,
           err = Some er\<rparr>)"

text \<open>One iteration of the collecting loop on the received value.\<close>

definition collect :: "analysisResult \<Rightarrow> BulkAnalysisResult \<Rightarrow> BulkAnalysisResult" where
  "collect res r =
     (let r = r\<lparr>Results := Results r @ [info res]\<rparr>
      in if err res = None
         then r\<lparr>summary := (summary r)\<lparr>Successful := Successful (summary r) + 1\<rparr>\<rparr>
         else r\<lparr>summary := (summary r)\<lparr>Failed := Failed (summary r) + 1\<rparr>\<rparr>)"

definition main_step :: "bulk_state \<Rightarrow> bulk_state" where
  "main_step s =
     (case main s of
        Begin \<Rightarrow>
          s\<lparr>startTime := clock s,
            result := \<lparr>Results = [],
                       summary = \<lparr>Total = int (length (IPs (request s))), Successful = 0,
                                  Failed = 0, Duration = Float 0\<rparr>,
                       bulk_Timestamp = clock s\<rparr>,
            resultChan := [], semaphore := [], main := Spawning 0\<rparr>
      | Spawning i \<Rightarrow>
          if i < length (IPs (request s))
          then s\<lparr>goroutines := goroutines s @ [\<lparr>targetIP = IPs (request s) ! i, pc = Acquire\<rparr>],
                 main := Spawning (Suc i)\<rparr>
          else s\<lparr>main := Collecting 0\<rparr>
      | Collecting i \<Rightarrow>
          if i < length (IPs (request s))
          then (case resultChan s of
                  [] \<Rightarrow> s
                | res # rest \<Rightarrow>
                    s\<lparr>resultChan := rest, result := collect res (result s),
                      main := Collecting (Suc i)\<rparr>)
          else let r = (result s)\<lparr>summary := (summary (result s))
                          \<lparr>Duration := Float (real (clock s - startTime s) / 1000000)\<rparr>\<rparr>
               in s\<lparr>result := r, returned := Some (Inr r), main := Returned\<rparr>
      | Returned \<Rightarrow> s)"

definition go_step :: "env \<Rightarrow> nat \<Rightarrow> bulk_state \<Rightarrow> bulk_state" where
  "go_step e k s =
     (if k < length (goroutines s)
      then let g = goroutines s ! k
           in case pc g of
                Acquire \<Rightarrow>
                  if length (semaphore s) < 10
                  then s\<lparr>semaphore := semaphore s @ [()],
                         goroutines := (goroutines s)[k := g\<lparr>pc := Analyze\<rparr>]\<rparr>
                  else s
              | Analyze \<Rightarrow>
                  s\<lparr>calls := calls s @ [(ctx s, targetIP g)],
                    goroutines := (goroutines s)
                       [k := g\<lparr>pc := Send (analyse e (clock s) (ctx s) (targetIP g))\<rparr>]\<rparr>
              | Send res \<Rightarrow>
                  if length (resultChan s) < length (IPs (request s))
                  then s\<lparr>resultChan := resultChan s @ [res],
                         goroutines := (goroutines s)[k := g\<lparr>pc := Release\<rparr>]\<rparr>
                  else s
              | Release \<Rightarrow>
                  (case semaphore s of
                     [] \<Rightarrow> s
                   | _ # rest \<Rightarrow>
                       s\<lparr>semaphore := rest,
                         goroutines := (goroutines s)[k := g\<lparr>pc := Done\<rparr>]\<rparr>)
              | Done \<Rightarrow> s
      else s)"

text \<open>Which statements can run: a send needs room, a receive needs a value.\<close>

definition main_enabled :: "bulk_state \<Rightarrow> bool" where
  "main_enabled s =
     (case main s of
        Begin \<Rightarrow> True
      | Spawning i \<Rightarrow> True
      | Collecting i \<Rightarrow> (if i < length (IPs (request s)) then resultChan s \<noteq> [] else True)
      | Returned \<Rightarrow> False)"

definition go_enabled :: "bulk_state \<Rightarrow> goroutine \<Rightarrow> bool" where
  "go_enabled s g =
     (case pc g of
        Acquire \<Rightarrow> length (semaphore s) < 10
      | Analyze \<Rightarrow> True
      | Send res \<Rightarrow> length (resultChan s) < length (IPs (request s))
      | Release \<Rightarrow> semaphore s \<noteq> []
      | Done \<Rightarrow> False)"

datatype action = Main | Go nat

definition enabled :: "bulk_state \<Rightarrow> action list" where
  "enabled s =
     (if main_enabled s then [Main] else [])
     @ map Go (filter (\<lambda>k. go_enabled s (goroutines s ! k)) [0..<length (goroutines s)])"

definition step :: "env \<Rightarrow> action \<Rightarrow> bulk_state \<Rightarrow> bulk_state" where
  "step e a s = (case a of Main \<Rightarrow> main_step s | Go k \<Rightarrow> go_step e k s)"

text \<open>
  A schedule is a list of pairs: which of the statements that can run runs next, and how
  much time passes before it does. When the schedule is used up the first statement
  that can run is taken, with no time passing.
\<close>

type_synonym schedule = "(nat \<times> nat) list"

definition pick :: "schedule \<Rightarrow> action list \<Rightarrow> action" where
  "pick cs as = as ! ((case cs of [] \<Rightarrow> 0 | (c, dt) # _ \<Rightarrow> c) mod length as)"

definition tick :: "schedule \<Rightarrow> bulk_state \<Rightarrow> bulk_state" where
  "tick cs s = s\<lparr>clock := clock s + (case cs of [] \<Rightarrow> 0 | (c, dt) # _ \<Rightarrow> dt)\<rparr>"

text \<open>The number of statements still to run, which every step lowers.\<close>

primrec gweight :: "gpc \<Rightarrow> nat" where
  "gweight Acquire = 4"
| "gweight Analyze = 3"
| "gweight (Send r) = 2"
| "gweight Release = 1"
| "gweight Done = 0"

primrec mweight :: "nat \<Rightarrow> mpc \<Rightarrow> nat" where
  "mweight n Begin = 6 * n + 3"
| "mweight n (Spawning i) = 5 * (n - i) + n + 2"
| "mweight n (Collecting i) = (n - i) + 1"
| "mweight n Returned = 0"

definition weight :: "bulk_state \<Rightarrow> nat" where
  "weight s =
     mweight (length (IPs (request s))) (main s)
     + sum_list (map (\<lambda>g. gweight (pc g)) (goroutines s))"

text \<open>
  A run: the states from the given one on, until no statement can run. It is finite for
  every schedule, since each step lowers the weight.
\<close>

function trace :: "env \<Rightarrow> schedule \<Rightarrow> bulk_state \<Rightarrow> bulk_state list" where
  "trace e cs s =
     (if enabled s = [] then [s]
      else s # trace e (tl cs) (step e (pick cs (enabled s)) (tick cs s)))"
  by pat_completeness auto
termination
proof (relation "measure (\<lambda>(e, cs, s). weight s)")
  show "wf (measure (\<lambda>(e, cs, s). weight s))" by simp
next
  fix e :: env and cs :: schedule and s :: bulk_state
  assume en: "enabled s \<noteq> []"
  let ?a = "pick cs (enabled s)"
  have mem: "?a \<in> set (enabled s)" using en by (simp add: pick_def)
  have upd: "sum_list (map (\<lambda>g. gweight (pc g)) (gs[k := (gs ! k)\<lparr>pc := p'\<rparr>]))
         < sum_list (map (\<lambda>g. gweight (pc g)) gs)"
    if "k < length gs" and "gweight p' < gweight (pc (gs ! k))" for k gs p'
  proof -
    let ?ws = "map (\<lambda>g. gweight (pc g)) gs"
    have k: "k < length ?ws" using that(1) by simp
    have eq: "map (\<lambda>g. gweight (pc g)) (gs[k := (gs ! k)\<lparr>pc := p'\<rparr>]) = ?ws[k := gweight p']"
      by (simp add: map_update)
    have le: "?ws ! k \<le> sum_list ?ws"
      using k by (simp add: member_le_sum_list)
    have "sum_list (?ws[k := gweight p']) = sum_list ?ws + gweight p' - ?ws ! k"
      using k by (rule sum_list_update)
    moreover have "?ws ! k = gweight (pc (gs ! k))" using that(1) by simp
    ultimately show ?thesis using le that(2) unfolding eq by linarith
  qed
  have "weight (step e ?a (tick cs s)) < weight s"
  proof (cases ?a)
    case Main
    with mem have "main_enabled s" by (auto simp: enabled_def split: if_splits)
    then have "weight (main_step (tick cs s)) < weight s"
      by (cases "main s")
         (auto simp: main_enabled_def main_step_def weight_def tick_def Let_def
               split: list.splits)
    with Main show ?thesis by (simp add: step_def)
  next
    case (Go k)
    with mem have k: "k < length (goroutines s)" and g: "go_enabled s (goroutines s ! k)"
      by (auto simp: enabled_def split: if_splits)
    have "weight (go_step e k (tick cs s)) < weight s"
    proof (cases "pc (goroutines s ! k)")
      case Acquire
      with k g show ?thesis
        using upd [of k "goroutines s" Analyze]
        by (simp add: go_enabled_def go_step_def weight_def tick_def Let_def)
    next
      case Analyze
      with k g show ?thesis
        using upd [of k "goroutines s"
            "Send (analyse e (clock (tick cs s)) (ctx s) (targetIP (goroutines s ! k)))"]
        by (simp add: go_enabled_def go_step_def weight_def tick_def Let_def)
    next
      case (Send r)
      with k g show ?thesis
        using upd [of k "goroutines s" Release]
        by (simp add: go_enabled_def go_step_def weight_def tick_def Let_def)
    next
      case Release
      with k g show ?thesis
        using upd [of k "goroutines s" Done]
        by (auto simp add: go_enabled_def go_step_def weight_def tick_def Let_def
                 split: list.splits)
    next
      case Done
      with g show ?thesis by (simp add: go_enabled_def)
    qed
    with Go show ?thesis by (simp add: step_def)
  qed
  then show "((e, tl cs, step e (pick cs (enabled s)) (tick cs s)), (e, cs, s))
               \<in> measure (\<lambda>(e, cs, s). weight s)"
    by simp
qed

declare trace.simps [simp del]

text \<open>
  \<open>BulkAnalyzeIPs\<close> is what the main function has returned when the run is over:
  \<open>None\<close> would be a call that never returns.
\<close>

definition BulkAnalyzeIPs :: "env \<Rightarrow> schedule \<Rightarrow> time \<Rightarrow> context \<Rightarrow> BulkAnalysisRequest
    \<Rightarrow> (error + BulkAnalysisResult) option" where
  "BulkAnalyzeIPs e cs t0 c req = returned (last (trace e cs (init t0 c req)))"

text \<open>
  The state reached after the steps of a schedule, without running on when the schedule
  is used up: a state of the run.
\<close>

primrec exec :: "env \<Rightarrow> schedule \<Rightarrow> bulk_state \<Rightarrow> bulk_state" where
  "exec e [] s = s"
| "exec e (c # cs) s =
     (if enabled s = [] then s
      else exec e cs (step e (pick [c] (enabled s)) (tick [c] s)))"

section \<open>What holds of every state of a run\<close>

text \<open>
  Three classes of places of a goroutine: \<open>holder\<close>, between acquiring and releasing the
  semaphore; \<open>sent\<close>, after the send of its result; \<open>called\<close>, after its call of
  \<open>AnalyzeIP\<close>.
\<close>

primrec holder :: "gpc \<Rightarrow> bool" where
  "holder Acquire = False"
| "holder Analyze = True"
| "holder (Send r) = True"
| "holder Release = True"
| "holder Done = False"

primrec sent :: "gpc \<Rightarrow> bool" where
  "sent Acquire = False"
| "sent Analyze = False"
| "sent (Send r) = False"
| "sent Release = True"
| "sent Done = True"

primrec called :: "gpc \<Rightarrow> bool" where
  "called Acquire = False"
| "called Analyze = False"
| "called (Send r) = True"
| "called Release = True"
| "called Done = True"

text \<open>
  A result is \<open>good\<close> when it is what the goroutine body computes for the address it
  carries, at some instant and under the context \<open>c\<close>.
\<close>

definition good :: "env \<Rightarrow> context \<Rightarrow> analysisResult \<Rightarrow> bool" where
  "good e c r = (\<exists>now. r = analyse e now c (IP (info r)))"

definition sending_ok :: "env \<Rightarrow> context \<Rightarrow> goroutine \<Rightarrow> bool" where
  "sending_ok e c g = (case pc g of Send r \<Rightarrow> IP (info r) = targetIP g \<and> good e c r | _ \<Rightarrow> True)"

definition main_ok :: "BulkAnalysisRequest \<Rightarrow> bulk_state \<Rightarrow> bool" where
  "main_ok req s =
     (case main s of
        Begin \<Rightarrow> goroutines s = [] \<and> returned s = None \<and> calls s = [] \<and>
                 Results (result s) = [] \<and> resultChan s = [] \<and> semaphore s = [] \<and>
                 Successful (summary (result s)) = 0 \<and> Failed (summary (result s)) = 0
      | Spawning i \<Rightarrow> i = length (goroutines s) \<and> Results (result s) = [] \<and>
                 Total (summary (result s)) = int (length (IPs req)) \<and> returned s = None
      | Collecting i \<Rightarrow> length (goroutines s) = length (IPs req) \<and>
                 i = length (Results (result s)) \<and>
                 Total (summary (result s)) = int (length (IPs req)) \<and> returned s = None
      | Returned \<Rightarrow> length (goroutines s) = length (IPs req) \<and>
                 length (Results (result s)) = length (IPs req) \<and>
                 Total (summary (result s)) = int (length (IPs req)) \<and>
                 returned s = Some (Inr (result s)))"

definition parses :: "env \<Rightarrow> string \<Rightarrow> bool" where
  "parses e t = (net_ParseIP e t \<noteq> None)"

text \<open>
  The invariant of a run of \<open>BulkAnalyzeIPs e cs t0 c req\<close>: the goroutines started so far
  are those of the first addresses of the request; the semaphore holds one unit per
  holder, at most ten; the addresses of the results in the channel and of those already
  collected are the addresses of the goroutines that have sent; the two counters count
  the collected results by whether their address parses; every logged call carried the
  context \<open>c\<close>.
\<close>

definition inv :: "env \<Rightarrow> context \<Rightarrow> BulkAnalysisRequest \<Rightarrow> bulk_state \<Rightarrow> bool" where
  "inv e c req s \<longleftrightarrow>
     ctx s = c \<and> request s = req \<and>
     map targetIP (goroutines s) = take (length (goroutines s)) (IPs req) \<and>
     length (goroutines s) \<le> length (IPs req) \<and>
     main_ok req s \<and>
     length (semaphore s) = size (filter_mset (\<lambda>g. holder (pc g)) (mset (goroutines s))) \<and>
     length (semaphore s) \<le> 10 \<and>
     image_mset (\<lambda>r. IP (info r)) (mset (resultChan s)) + image_mset IP (mset (Results (result s)))
       = image_mset targetIP (filter_mset (\<lambda>g. sent (pc g)) (mset (goroutines s))) \<and>
     (\<forall>r \<in> set (resultChan s). good e c r) \<and>
     (\<forall>g \<in> set (goroutines s). sending_ok e c g) \<and>
     (\<forall>i \<in> set (Results (result s)). \<exists>now. i = info (analyse e now c (IP i))) \<and>
     Successful (summary (result s)) = int (length (filter (\<lambda>i. parses e (IP i)) (Results (result s)))) \<and>
     Failed (summary (result s)) = int (length (filter (\<lambda>i. \<not> parses e (IP i)) (Results (result s)))) \<and>
     (\<forall>x \<in> set (calls s). fst x = c) \<and>
     image_mset snd (mset (calls s))
       = image_mset targetIP (filter_mset (\<lambda>g. called (pc g)) (mset (goroutines s)))"

text \<open>The number of goroutines inside their call of \<open>AnalyzeIP\<close>.\<close>

definition in_flight :: "bulk_state \<Rightarrow> nat" where
  "in_flight s = length (filter (\<lambda>g. pc g = Analyze) (goroutines s))"

definition holders :: "bulk_state \<Rightarrow> nat" where
  "holders s = length (filter (\<lambda>g. holder (pc g)) (goroutines s))"

section \<open>The HTTP handler \<open>BatchAnalyzeIPs\<close>\<close>

text \<open>
  The handler gets the decoded request body (or the decoder's error), the context of
  the HTTP request, the service method it calls and the JSON encoder. The service
  method may fail to return, so the handler may fail to respond: \<open>None\<close>.
\<close>

record response =
  status :: nat
  content_type :: string
  body :: string

definition http_Error :: "string \<Rightarrow> nat \<Rightarrow> response" where
  "http_Error m code =
     \<lparr>status = code, content_type = ''text/plain; charset=utf-8'', body = m @ [CHR 0x0A]\<rparr>"

definition BatchAnalyzeIPs ::
  "(context \<Rightarrow> BulkAnalysisRequest \<Rightarrow> (error + BulkAnalysisResult) option)
   \<Rightarrow> (BulkAnalysisResult \<Rightarrow> error + string)
   \<Rightarrow> context \<Rightarrow> error + BulkAnalysisRequest \<Rightarrow> response option" where
  "BatchAnalyzeIPs bulk encode r_ctx decoded =
     (case decoded of
        Inl _ \<Rightarrow> Some (http_Error ''Invalid request body'' 400)
      | Inr request' \<Rightarrow>
          if length (IPs request') = 0 then Some (http_Error ''No IPs provided'' 400)
          else if length (IPs request') > 100
          then Some (http_Error ''Too many IPs (maximum 100)'' 400)
          else (case bulk r_ctx request' of
                  None \<Rightarrow> None
                | Some (Inl _) \<Rightarrow> Some (http_Error ''Bulk analysis failed'' 500)
                | Some (Inr result') \<Rightarrow>
                    (case encode result' of
                       Inl _ \<Rightarrow> Some (http_Error ''Failed to encode response'' 500)
                     | Inr js \<Rightarrow>
                         Some \<lparr>status = 200, content_type = ''application/json'',
                               body = js\<rparr>)))"

section \<open>Example inputs\<close>

text \<open>
  A resolver stub: every string parses as an address except \<open>not-an-ip\<close>; the
  HTTP client and reverse DNS reach nothing; a domain has one address, one mail
  exchanger and one text record.
\<close>

definition stub :: env where
  "stub =
     \<lparr>net_ParseIP = (\<lambda>s. if s = ''not-an-ip'' then None else Some [1, 1, 1, 1]),
      To4 = Some,
      IsPrivate = (\<lambda>ip. False), IsLoopback = (\<lambda>ip. False), IsMulticast = (\<lambda>ip. False),
      IsLinkLocalUnicast = (\<lambda>ip. False),
      ip_String = (\<lambda>ip. ''1.1.1.1''),
      unicode_ToUpper = (\<lambda>s. s),
      strings_Fields = (\<lambda>s. [s]),
      fmt_Sscanf_f = (\<lambda>s. Inl (Error ''unexpected EOF'')),
      http_NewRequestWithContext =
        (\<lambda>c m u. Inr \<lparr>req_ctx = c, req_Method = m, req_URL = u\<rparr>),
      httpClient_Do = (\<lambda>now req. Inl (Error ''unreachable'')),
      json_Decode_geo = (\<lambda>b. Inl (Error ''EOF'')),
      json_Decode_isp = (\<lambda>b. Inl (Error ''EOF'')),
      net_LookupAddr = (\<lambda>now ip. Inl (Error ''no such host'')),
      net_LookupIP = (\<lambda>now d. Inr [[1, 1, 1, 1]]),
      net_LookupMX = (\<lambda>now d. Inr [\<lparr>mx_Host = ''mail.example.com.'', Pref = 10\<rparr>]),
      net_LookupNS = (\<lambda>now d. Inl (Error ''no such host'')),
      net_LookupTXT = (\<lambda>now d. Inr [''v=spf1 -all'']),
      net_LookupCNAME = (\<lambda>now d. Inl (Error ''no such host''))\<rparr>"

definition no_options :: Options where
  "no_options = \<lparr>IncludeGeolocation = False, IncludeSecurity = False, IncludeDNS = False,
                  IncludePerformance = False\<rparr>"

definition twelve :: BulkAnalysisRequest where
  "twelve = \<lparr>IPs = replicate 12 ''8.8.8.8'', options = no_options\<rparr>"

definition crowd :: schedule where
  "crowd = replicate 14 (0, 1) @ map (\<lambda>k. (k, 1)) [0..<10]"

definition three :: BulkAnalysisRequest where
  "three = \<lparr>IPs = [''1.1.1.1'', ''not-an-ip'', ''8.8.8.8''], options = no_options\<rparr>"

definition two_bad :: BulkAnalysisRequest where
  "two_bad = \<lparr>IPs = [''not-an-ip'', ''not-an-ip''], options = no_options\<rparr>"

text \<open>
  Requests at the boundaries of the handler, a service method that never returns, an
  encoder, a schedule for the goroutines of \<open>lookupAll\<close>, and a second schedule for
  the bulk analysis.
\<close>

definition hundred :: BulkAnalysisRequest where
  "hundred = \<lparr>IPs = replicate 100 ''8.8.8.8'', options = no_options\<rparr>"

definition too_many :: BulkAnalysisRequest where
  "too_many = \<lparr>IPs = replicate 101 ''8.8.8.8'', options = no_options\<rparr>"

definition empty_request :: BulkAnalysisRequest where
  "empty_request = \<lparr>IPs = [], options = no_options\<rparr>"

definition never :: "context \<Rightarrow> BulkAnalysisRequest \<Rightarrow> (error + BulkAnalysisResult) option" where
  "never c req = None"

definition encode_stub :: "BulkAnalysisResult \<Rightarrow> error + string" where
  "encode_stub r = Inr ''{}''"

definition dns_stub_sched :: dns_sched where
  "dns_stub_sched = \<lparr>order = [3, 1], began = (\<lambda>t. 5), ended = (\<lambda>t. 9)\<rparr>"

definition slow :: schedule where
  "slow = [(0, 1), (0, 1), (0, 1), (0, 1), (0, 1), (2, 9), (2, 9)]"

text \<open>
  A per-type lookup that always succeeds and reports, as the value of its one record,
  the context it was called with.
\<close>

definition reporting :: "context \<Rightarrow> string \<Rightarrow> string \<Rightarrow> error + DNSLookupResult" where
  "reporting c domain rType =
     Inr \<lparr>Domain = domain,
          Records = [\<lparr>Name = domain, rec_Type = rType,
                      Value = (case c of Background \<Rightarrow> ''context.Background''
                                       | Request n \<Rightarrow> ''request context''),
                      TTL = 300\<rparr>],
          dns_Timestamp = 0, QueryTime = 0\<rparr>"

section \<open>Lemmas on single analyses and on the invariant\<close>

lemma analyse_IP [simp]: "IP (info (analyse e now c t)) = t"
  by (simp add: analyse_def AnalyzeIP_def Let_def split: option.splits sum.splits)

lemma analyse_err: "err (analyse e now c t) = None \<longleftrightarrow> parses e t"
  by (simp add: analyse_def AnalyzeIP_def Let_def parses_def split: option.splits sum.splits)

lemma getIPType_not_error: "getIPType e ip \<noteq> ''error''"
  by (simp add: getIPType_def)

lemma analyse_Type: "Type (info (analyse e now c t)) = ''error'' \<longleftrightarrow> \<not> parses e t"
  by (simp add: analyse_def AnalyzeIP_def Let_def parses_def getIPType_not_error
           split: option.splits sum.splits)

lemma good_err: "good e c r \<Longrightarrow> err r = None \<longleftrightarrow> parses e (IP (info r))"
  unfolding good_def using analyse_err by metis

lemma good_info: "good e c r \<Longrightarrow> \<exists>now. info r = info (analyse e now c (IP (info r)))"
  unfolding good_def by metis

lemma inv_init: "inv e c req (init t0 c req)"
  by (simp add: inv_def init_def main_ok_def)

lemma inv_tick: "inv e c req s \<Longrightarrow> inv e c req (tick cs s)"
  by (simp add: inv_def tick_def main_ok_def split: mpc.splits)

lemma inv_sizes:
  assumes "inv e c req s"
  shows "length (resultChan s) + length (Results (result s))
         = size (filter_mset (\<lambda>g. sent (pc g)) (mset (goroutines s)))"
proof -
  from assms have "image_mset (\<lambda>r. IP (info r)) (mset (resultChan s))
        + image_mset IP (mset (Results (result s)))
      = image_mset targetIP (filter_mset (\<lambda>g. sent (pc g)) (mset (goroutines s)))"
    by (simp add: inv_def)
  then have "size (image_mset (\<lambda>r. IP (info r)) (mset (resultChan s))
        + image_mset IP (mset (Results (result s))))
      = size (image_mset targetIP (filter_mset (\<lambda>g. sent (pc g)) (mset (goroutines s))))"
    by (rule arg_cong)
  then show ?thesis by simp
qed

lemma inv_Results_le:
  assumes "inv e c req s"
  shows "length (Results (result s)) \<le> length (goroutines s)"
proof -
  have "size (filter_mset (\<lambda>g. sent (pc g)) (mset (goroutines s))) \<le> size (mset (goroutines s))"
    by (rule size_filter_mset_lesseq)
  with inv_sizes [OF assms] show ?thesis by simp
qed

lemma inv_main_step:
  assumes "inv e c req s"
  shows "inv e c req (main_step s)"
proof (cases "main s")
  case Begin
  with assms show ?thesis
    by (simp add: inv_def main_step_def main_ok_def)
next
  case (Spawning i)
  with assms show ?thesis
    by (auto simp: inv_def main_step_def main_ok_def sending_ok_def take_Suc_conv_app_nth)
next
  case (Collecting i)
  show ?thesis
  proof (cases "i < length (IPs req)")
    case False
    with Collecting assms inv_Results_le [OF assms] show ?thesis
      by (simp add: inv_def main_step_def main_ok_def Let_def)
  next
    case True
    show ?thesis
    proof (cases "resultChan s")
      case Nil
      with True Collecting assms show ?thesis
        by (simp add: inv_def main_step_def)
    next
      case (Cons r rest)
      from assms Cons have g: "good e c r" by (simp add: inv_def)
      from Cons True Collecting assms good_err [OF g] good_info [OF g] show ?thesis
        by (auto simp: inv_def main_step_def main_ok_def collect_def Let_def)
    qed
  qed
next
  case Returned
  with assms show ?thesis by (simp add: main_step_def)
qed

lemma update_mset:
  assumes "k < length gs"
  shows "\<exists>M. mset gs = add_mset (gs ! k) M \<and> set gs = insert (gs ! k) (set_mset M) \<and>
             (\<forall>g'. mset (gs[k := g']) = add_mset g' M \<and>
                   set (gs[k := g']) = insert g' (set_mset M))"
proof -
  let ?M = "mset gs - {#gs ! k#}"
  have "gs ! k \<in># mset gs" using assms by simp
  then have 1: "mset gs = add_mset (gs ! k) ?M" by simp
  have 2: "mset (gs[k := g']) = add_mset g' ?M" for g'
    using assms by (simp add: mset_update)
  have 3: "set gs = insert (gs ! k) (set_mset ?M)"
    using arg_cong [OF 1, of set_mset] by simp
  have 4: "set (gs[k := g']) = insert g' (set_mset ?M)" for g'
    using arg_cong [OF 2 [of g'], of set_mset] by simp
  from 1 2 3 4 show ?thesis by blast
qed

lemma map_targetIP_update:
  assumes "k < length gs"
  shows "map targetIP (gs[k := (gs ! k)\<lparr>pc := p\<rparr>]) = map targetIP gs"
proof -
  have "map targetIP (gs[k := (gs ! k)\<lparr>pc := p\<rparr>]) = (map targetIP gs)[k := map targetIP gs ! k]"
    using assms by (simp add: map_update)
  then show ?thesis by simp
qed

lemma inv_go_step:
  assumes "inv e c req s"
  shows "inv e c req (go_step e k s)"
proof (cases "k < length (goroutines s)")
  case False
  with assms show ?thesis by (simp add: go_step_def)
next
  case True
  from update_mset [OF True] obtain M where
    M: "mset (goroutines s) = add_mset (goroutines s ! k) M"
       "set (goroutines s) = insert (goroutines s ! k) (set_mset M)"
       "\<And>g'. mset ((goroutines s)[k := g']) = add_mset g' M"
       "\<And>g'. set ((goroutines s)[k := g']) = insert g' (set_mset M)"
    by blast
  note T = map_targetIP_update [OF True]
  show ?thesis
  proof (cases "pc (goroutines s ! k)")
    case Acquire
    with assms True show ?thesis
      by (auto simp: inv_def go_step_def Let_def main_ok_def sending_ok_def M T
               split: mpc.splits)
  next
    case Analyze
    with assms True show ?thesis
      by (auto simp: inv_def go_step_def Let_def main_ok_def sending_ok_def good_def M T
               split: mpc.splits)
  next
    case (Send r)
    with assms True show ?thesis
      by (auto simp: inv_def go_step_def Let_def main_ok_def sending_ok_def M T
               split: mpc.splits)
  next
    case Release
    with assms True show ?thesis
      by (auto simp: inv_def go_step_def Let_def main_ok_def sending_ok_def M T
               split: mpc.splits list.splits)
  next
    case Done
    with assms True show ?thesis by (simp add: go_step_def)
  qed
qed

lemma inv_step: "inv e c req s \<Longrightarrow> inv e c req (step e a (tick cs s))"
  by (cases a) (simp_all add: step_def inv_tick inv_main_step inv_go_step)

lemma trace_inv: "inv e c req s \<Longrightarrow> s' \<in> set (trace e cs s) \<Longrightarrow> inv e c req s'"
proof (induction e cs s rule: trace.induct)
  case (1 e cs s)
  show ?case
  proof (cases "enabled s = []")
    case True
    with "1.prems" show ?thesis by (simp add: trace.simps)
  next
    case False
    with "1.prems" have "s' = s \<or> s' \<in> set (trace e (tl cs) (step e (pick cs (enabled s)) (tick cs s)))"
      by (simp add: trace.simps [of e cs s])
    then show ?thesis
    proof
      assume "s' = s" with "1.prems" show ?thesis by simp
    next
      assume "s' \<in> set (trace e (tl cs) (step e (pick cs (enabled s)) (tick cs s)))"
      with "1.IH" [OF False inv_step [OF "1.prems"(1)]] show ?thesis by simp
    qed
  qed
qed

lemma trace_not_Nil: "trace e cs s \<noteq> []"
  by (simp add: trace.simps [of e cs s])

lemma trace_hd: "hd (trace e cs s) = s"
  by (simp add: trace.simps [of e cs s])

lemma trace_last_quiet: "enabled (last (trace e cs s)) = []"
proof (induction e cs s rule: trace.induct)
  case (1 e cs s)
  show ?case
  proof (cases "enabled s = []")
    case True
    then show ?thesis by (simp add: trace.simps [of e cs s])
  next
    case False
    with "1.IH" show ?thesis
      by (simp add: trace.simps [of e cs s] trace_not_Nil)
  qed
qed

lemma filter_size_pos: "g \<in> set gs \<Longrightarrow> P g \<Longrightarrow> 0 < size (filter_mset P (mset gs))"
  by (induction gs) auto

lemma filter_size_less: "g \<in> set gs \<Longrightarrow> \<not> P g \<Longrightarrow> size (filter_mset P (mset gs)) < length gs"
proof (induction gs)
  case Nil
  then show ?case by simp
next
  case (Cons a gs)
  have "size (filter_mset P (mset gs)) \<le> length gs"
    using size_filter_mset_lesseq [of P "mset gs"] by simp
  with Cons show ?case by auto
qed

lemma filter_size_all: "\<forall>g\<in>set gs. P g \<Longrightarrow> size (filter_mset P (mset gs)) = length gs"
  by (induction gs) auto

lemma filter_size_none: "\<forall>g\<in>set gs. \<not> P g \<Longrightarrow> size (filter_mset P (mset gs)) = 0"
  by (induction gs) auto

lemma quiet_final:
  assumes I: "inv e c req s" and Q: "enabled s = []"
  shows "main s = Returned \<and> (\<forall>g\<in>set (goroutines s). pc g = Done)
         \<and> resultChan s = [] \<and> semaphore s = []"
proof -
  let ?gs = "goroutines s"
  have nE: "\<not> go_enabled s g" if "g \<in> set ?gs" for g
    using Q that by (auto simp: enabled_def filter_empty_conv in_set_conv_nth split: if_splits)
  have nM: "\<not> main_enabled s"
    using Q by (auto simp: enabled_def split: if_splits)
  have req: "request s = req" and len: "length ?gs \<le> length (IPs req)"
    and sem: "length (semaphore s) = size (filter_mset (\<lambda>g. holder (pc g)) (mset ?gs))"
    using I by (simp_all add: inv_def)
  note sz = inv_sizes [OF I]
  have noAnalyze: "pc g \<noteq> Analyze" if "g \<in> set ?gs" for g
    using nE [OF that] by (auto simp: go_enabled_def)
  have noRelease: "pc g \<noteq> Release" if "g \<in> set ?gs" for g
  proof
    assume r: "pc g = Release"
    with nE [OF that] have "semaphore s = []" by (simp add: go_enabled_def)
    moreover have "0 < size (filter_mset (\<lambda>g. holder (pc g)) (mset ?gs))"
      using that r by (intro filter_size_pos [of g]) simp_all
    then have "0 < length (semaphore s)" by (simp only: sem)
    ultimately show False by simp
  qed
  have noSend: "pc g \<noteq> Send r" if "g \<in> set ?gs" for g r
  proof
    assume r: "pc g = Send r"
    with nE [OF that] have "length (IPs req) \<le> length (resultChan s)"
      by (simp add: go_enabled_def req)
    moreover have "size (filter_mset (\<lambda>g. sent (pc g)) (mset ?gs)) < length ?gs"
      using that r by (intro filter_size_less [of g]) simp_all
    ultimately show False using sz len by simp
  qed
  have noHolder: "\<forall>g\<in>set ?gs. \<not> holder (pc g)"
  proof
    fix g assume g: "g \<in> set ?gs"
    show "\<not> holder (pc g)"
      using noAnalyze [OF g] noRelease [OF g] noSend [OF g] by (cases "pc g") auto
  qed
  have sem0: "semaphore s = []"
    using sem filter_size_none [OF noHolder] by simp
  have allDone: "\<forall>g\<in>set ?gs. pc g = Done"
  proof
    fix g assume g: "g \<in> set ?gs"
    have "pc g \<noteq> Acquire" using nE [OF g] sem0 by (auto simp: go_enabled_def)
    then show "pc g = Done"
      using noAnalyze [OF g] noRelease [OF g] noSend [OF g] by (cases "pc g") auto
  qed
  have allSent: "size (filter_mset (\<lambda>g. sent (pc g)) (mset ?gs)) = length ?gs"
    using allDone by (intro filter_size_all) simp
  have mainR: "main s = Returned"
  proof (cases "main s")
    case (Collecting i)
    with nM have "i < length (IPs req)" "resultChan s = []"
      by (auto simp: main_enabled_def req split: if_splits)
    moreover from I Collecting have "length ?gs = length (IPs req)" "i = length (Results (result s))"
      by (simp_all add: inv_def main_ok_def)
    ultimately show ?thesis using sz allSent by simp
  qed (use nM in \<open>auto simp: main_enabled_def\<close>)
  with I have "length (Results (result s)) = length (IPs req)" "length ?gs = length (IPs req)"
    by (simp_all add: inv_def main_ok_def)
  with sz allSent have "resultChan s = []" by simp
  with mainR allDone sem0 show ?thesis by simp
qed

lemma run_final:
  assumes s_def: "s = last (trace e cs (init t0 c req))"
  shows "inv e c req s" and "main s = Returned" and "\<forall>g\<in>set (goroutines s). pc g = Done"
    and "resultChan s = []" and "semaphore s = []"
proof -
  have "s \<in> set (trace e cs (init t0 c req))"
    unfolding s_def using trace_not_Nil by simp
  then show I: "inv e c req s" using trace_inv [OF inv_init] by blast
  have "enabled s = []" unfolding s_def by (rule trace_last_quiet)
  from quiet_final [OF I this]
  show "main s = Returned" and "\<forall>g\<in>set (goroutines s). pc g = Done"
    and "resultChan s = []" and "semaphore s = []" by simp_all
qed

lemma filter_mset_all: "\<forall>x\<in>#M. P x \<Longrightarrow> filter_mset P M = M"
  by (induction M) auto

lemma length_filter_image:
  "length (filter (\<lambda>i. P (f i)) xs) = size (filter_mset P (image_mset f (mset xs)))"
  by (induction xs) auto

lemma bulk_returns:
  obtains r where "BulkAnalyzeIPs e cs t0 c req = Some (Inr r)"
    and "length (Results r) = length (IPs req)"
    and "Total (summary r) = int (length (IPs req))"
    and "image_mset IP (mset (Results r)) = mset (IPs req)"
    and "Successful (summary r) = int (length (filter (parses e) (IPs req)))"
    and "Failed (summary r) = int (length (filter (\<lambda>t. \<not> parses e t) (IPs req)))"
    and "\<forall>i\<in>set (Results r). \<exists>now. i = info (analyse e now c (IP i))"
proof -
  define s where "s = last (trace e cs (init t0 c req))"
  note F = run_final [OF s_def]
  let ?r = "result s"
  from F(1,2) have ret: "returned s = Some (Inr ?r)"
    and len: "length (Results ?r) = length (IPs req)"
    and glen: "length (goroutines s) = length (IPs req)"
    and tot: "Total (summary ?r) = int (length (IPs req))"
    by (simp_all add: inv_def main_ok_def)
  have "filter_mset (\<lambda>g. sent (pc g)) (mset (goroutines s)) = mset (goroutines s)"
    using F(3) by (intro filter_mset_all) simp
  moreover from F(1) have "map targetIP (goroutines s) = take (length (goroutines s)) (IPs req)"
    by (simp add: inv_def)
  then have "image_mset targetIP (mset (goroutines s)) = mset (IPs req)"
    using glen by (metis mset_map order_refl take_all)
  ultimately have ips: "image_mset IP (mset (Results ?r)) = mset (IPs req)"
    using F(1,4) by (simp add: inv_def)
  from F(1) have "Successful (summary ?r) = int (length (filter (\<lambda>i. parses e (IP i)) (Results ?r)))"
    by (simp add: inv_def)
  also have "\<dots> = int (size (filter_mset (parses e) (image_mset IP (mset (Results ?r)))))"
    using length_filter_image [of "parses e" IP "Results ?r"] by simp
  also have "\<dots> = int (length (filter (parses e) (IPs req)))"
    by (simp only: ips) (simp flip: mset_filter)
  finally have suc: "Successful (summary ?r) = int (length (filter (parses e) (IPs req)))" .
  from F(1) have "Failed (summary ?r) = int (length (filter (\<lambda>i. \<not> parses e (IP i)) (Results ?r)))"
    by (simp add: inv_def)
  also have "\<dots> = int (size (filter_mset (\<lambda>t. \<not> parses e t) (image_mset IP (mset (Results ?r)))))"
    using length_filter_image [of "\<lambda>t. \<not> parses e t" IP "Results ?r"] by simp
  also have "\<dots> = int (length (filter (\<lambda>t. \<not> parses e t) (IPs req)))"
    by (simp only: ips) (simp flip: mset_filter)
  finally have fl: "Failed (summary ?r) = int (length (filter (\<lambda>t. \<not> parses e t) (IPs req)))" .
  from F(1) have wf: "\<forall>i\<in>set (Results ?r). \<exists>now. i = info (analyse e now c (IP i))"
    by (simp add: inv_def)
  have "BulkAnalyzeIPs e cs t0 c req = Some (Inr ?r)"
    by (simp add: BulkAnalyzeIPs_def ret flip: s_def)
  then show thesis using len tot ips suc fl wf by (rule that)
qed

section \<open>Lemmas on the DNS lookups\<close>

lemma foldl_append_concat: "foldl (@) acc xss = acc @ concat xss"
  by (induction xss arbitrary: acc) simp_all

lemma mset_arrival: "mset (arrival cs xs) = mset xs"
proof (induction cs arbitrary: xs)
  case Nil
  show ?case by simp
next
  case (Cons c cs)
  show ?case
  proof (cases "xs = []")
    case True
    then show ?thesis by simp
  next
    case False
    let ?i = "c mod length xs"
    have i: "?i < length xs" using False by simp
    have "mset xs = mset (take ?i xs @ xs ! ?i # drop (Suc ?i) xs)"
      using id_take_nth_drop [OF i] by simp
    then show ?thesis using False Cons.IH [of "take ?i xs @ drop (Suc ?i) xs"] by simp
  qed
qed

text \<open>Every order of arrival is the order of some schedule.\<close>

lemma arrival_complete: "mset ys = mset xs \<Longrightarrow> \<exists>cs. arrival cs xs = ys"
proof (induction ys arbitrary: xs)
  case Nil
  then have "arrival [] xs = []" by simp
  then show ?case ..
next
  case (Cons y ys)
  from Cons.prems have "y \<in> set xs" by (metis list.set_intros(1) mset_eq_setD)
  then obtain i where i: "i < length xs" "xs ! i = y" by (auto simp: in_set_conv_nth)
  let ?xs' = "take i xs @ drop (Suc i) xs"
  have "mset xs = add_mset y (mset ?xs')"
    using arg_cong [OF id_take_nth_drop [OF i(1)], of mset] i(2) by simp
  with Cons.prems have "mset ys = mset ?xs'" by simp
  from Cons.IH [OF this] obtain cs where cs: "arrival cs ?xs' = ys" ..
  have "xs \<noteq> []" using i(1) by auto
  then have "arrival (i # cs) xs = y # ys" using i cs by simp
  then show ?case ..
qed

lemma lookupAll_eq:
  "lookupAll e sch domain =
     Inr (concat (arrival (order sch)
       (map (\<lambda>rType. sent_by (LookupDNS e sch (began sch rType) (ended sch rType) Background domain rType))
          types)))"
  by (simp add: lookupAll.simps lookupAll_with_def Let_def foldl_append_concat)

lemma ttl_lookups:
  "lookupA e now d = Inr rs \<Longrightarrow> r \<in> set rs \<Longrightarrow> TTL r = 300"
  "lookupAAAA e now d = Inr rs \<Longrightarrow> r \<in> set rs \<Longrightarrow> TTL r = 300"
  "lookupMX e now d = Inr rs \<Longrightarrow> r \<in> set rs \<Longrightarrow> TTL r = 300"
  "lookupNS e now d = Inr rs \<Longrightarrow> r \<in> set rs \<Longrightarrow> TTL r = 300"
  "lookupTXT e now d = Inr rs \<Longrightarrow> r \<in> set rs \<Longrightarrow> TTL r = 300"
  "lookupCNAME e now d = Inr rs \<Longrightarrow> r \<in> set rs \<Longrightarrow> TTL r = 300"
  "lookupPTR e now d = Inr rs \<Longrightarrow> r \<in> set rs \<Longrightarrow> TTL r = 300"
  by (auto simp: lookupA_def lookupAAAA_def lookupMX_def lookupNS_def lookupTXT_def
        lookupCNAME_def lookupPTR_def split: sum.splits)

lemma finish_Inr:
  "finish res0 start fin x = Inr res \<Longrightarrow> \<exists>rs. x = Inr rs \<and> Records res = rs"
  by (auto simp: finish_def split: sum.splits)

lemma ToUpper_types:
  "ToUpper e ''A'' = ''A''" "ToUpper e ''AAAA'' = ''AAAA''" "ToUpper e ''MX'' = ''MX''"
  "ToUpper e ''NS'' = ''NS''" "ToUpper e ''TXT'' = ''TXT''" "ToUpper e ''CNAME'' = ''CNAME''"
  by (simp_all add: ToUpper_def ascii_upper_def)

lemma ttl_single:
  assumes "t \<in> set types" and "r \<in> set (sent_by (LookupDNS e sch start fin c domain t))"
  shows "TTL r = 300"
proof (cases "LookupDNS e sch start fin c domain t")
  case (Inl a)
  with assms(2) show ?thesis by (simp add: sent_by_def)
next
  case (Inr res)
  with assms(2) have r: "r \<in> set (Records res)" by (simp add: sent_by_def)
  from assms(1) have "t = ''A'' \<or> t = ''AAAA'' \<or> t = ''MX'' \<or> t = ''NS'' \<or> t = ''TXT'' \<or> t = ''CNAME''"
    by (simp add: types_def)
  with Inr r show ?thesis
    by (auto simp: LookupDNS.simps [of e sch start fin c domain t] ToUpper_types Let_def
             split: if_splits dest!: finish_Inr dest: ttl_lookups)
qed

lemma ttl_all:
  assumes "lookupAll e sch domain = Inr rs" and "r \<in> set rs"
  shows "TTL r = 300"
proof -
  let ?sent = "map (\<lambda>rType. sent_by (LookupDNS e sch (began sch rType) (ended sch rType) Background domain rType)) types"
  from assms have "r \<in> set (concat (arrival (order sch) ?sent))"
    by (simp add: lookupAll_eq)
  then obtain xs where "xs \<in> set (arrival (order sch) ?sent)" "r \<in> set xs" by auto
  moreover have "set (arrival (order sch) ?sent) = set ?sent"
    using arg_cong [OF mset_arrival [of "order sch" ?sent], of set_mset] by simp
  ultimately obtain t where "t \<in> set types"
    "r \<in> set (sent_by (LookupDNS e sch (began sch t) (ended sch t) Background domain t))"
    by auto
  then show ?thesis by (rule ttl_single)
qed

lemma mset_concat_arrival: "mset (concat (arrival cs xss)) = mset (concat xss)"
proof -
  have *: "mset (concat ys) = sum_mset (image_mset mset (mset ys))" for ys :: "'a list list"
    by (induction ys) simp_all
  show ?thesis by (simp only: * mset_arrival)
qed

lemma AnalyzeIP_isl: "isl (AnalyzeIP e now c t) \<longleftrightarrow> \<not> parses e t"
  by (simp add: AnalyzeIP_def parses_def Let_def split: option.splits)

lemma bulk_markers:
  assumes ips: "image_mset IP (mset rs) = mset ips"
    and wf: "\<forall>i\<in>set rs. \<exists>now. i = info (analyse e now c (IP i))"
  shows "mset (map IP (filter (\<lambda>i. Type i = ''error'') rs)) = mset (filter (\<lambda>t. \<not> parses e t) ips)"
proof -
  have ty: "Type i = ''error'' \<longleftrightarrow> \<not> parses e (IP i)" if "i \<in> set rs" for i
    using wf that analyse_Type by metis
  have "filter (\<lambda>i. Type i = ''error'') rs = filter (\<lambda>i. \<not> parses e (IP i)) rs"
    by (rule filter_cong) (simp_all add: ty)
  then have "mset (map IP (filter (\<lambda>i. Type i = ''error'') rs))
      = image_mset IP (filter_mset (\<lambda>i. \<not> parses e (IP i)) (mset rs))"
    by simp
  also have "\<dots> = filter_mset (\<lambda>t. \<not> parses e t) (image_mset IP (mset rs))"
    by (rule image_mset_filter_mset_swap)
  finally show ?thesis by (simp add: ips)
qed

lemma exec_in_trace: "exec e cs s \<in> set (trace e (cs @ cs') s)"
proof (induction cs arbitrary: s)
  case Nil
  show ?case by (simp add: trace.simps [of e cs' s])
next
  case (Cons c cs)
  have p: "pick ((c # cs) @ cs') as = pick [c] as" for as
    by (simp add: pick_def split: prod.splits)
  have t: "tick ((c # cs) @ cs') s = tick [c] s"
    by (simp add: tick_def split: prod.splits)
  show ?case
    using Cons.IH [of "step e (pick [c] (enabled s)) (tick [c] s)"]
    by (simp add: trace.simps [of e "(c # cs) @ cs'" s] p t del: append_Cons)
qed

lemma decimal_10: "decimal 10 = ''10''"
  by code_simp

lemma LookupDNS_stub:
  "LookupDNS stub dns_stub_sched 5 9 Background ''example.com'' ''A''
     = Inr \<lparr>Domain = ''example.com'',
            Records = [\<lparr>Name = ''example.com'', rec_Type = ''A'', Value = ''1.1.1.1'', TTL = 300\<rparr>],
            dns_Timestamp = 5, QueryTime = 0\<rparr>"
  "LookupDNS stub dns_stub_sched 5 9 Background ''example.com'' ''AAAA''
     = Inr \<lparr>Domain = ''example.com'', Records = [], dns_Timestamp = 5, QueryTime = 0\<rparr>"
  "LookupDNS stub dns_stub_sched 5 9 Background ''example.com'' ''MX''
     = Inr \<lparr>Domain = ''example.com'',
            Records = [\<lparr>Name = ''example.com'', rec_Type = ''MX'',
                        Value = ''10 mail.example.com.'', TTL = 300\<rparr>],
            dns_Timestamp = 5, QueryTime = 0\<rparr>"
  "LookupDNS stub dns_stub_sched 5 9 Background ''example.com'' ''NS''
     = Inl (Error ''DNS lookup failed: no such host'')"
  "LookupDNS stub dns_stub_sched 5 9 Background ''example.com'' ''TXT''
     = Inr \<lparr>Domain = ''example.com'',
            Records = [\<lparr>Name = ''example.com'', rec_Type = ''TXT'', Value = ''v=spf1 -all'',
                        TTL = 300\<rparr>],
            dns_Timestamp = 5, QueryTime = 0\<rparr>"
  "LookupDNS stub dns_stub_sched 5 9 Background ''example.com'' ''CNAME''
     = Inl (Error ''DNS lookup failed: no such host'')"
  by (simp_all add: LookupDNS.simps ToUpper_def ascii_upper_def stub_def finish_def msg_def
        lookupA_def lookupAAAA_def lookupMX_def lookupNS_def lookupTXT_def lookupCNAME_def
        decimal_10)

lemma calls_final:
  assumes "z = last (trace e cs (init t0 c req))"
  shows "mset (map snd (calls z)) = mset (IPs req)"
proof -
  note F = run_final [OF assms]
  from F(1,2) have glen: "length (goroutines z) = length (IPs req)"
    by (simp add: inv_def main_ok_def)
  have "filter_mset (\<lambda>g. called (pc g)) (mset (goroutines z)) = mset (goroutines z)"
    using F(3) by (intro filter_mset_all) simp
  moreover from F(1) have "map targetIP (goroutines z) = take (length (goroutines z)) (IPs req)"
    by (simp add: inv_def)
  then have "image_mset targetIP (mset (goroutines z)) = mset (IPs req)"
    using glen by (metis mset_map order_refl take_all)
  ultimately show ?thesis using F(1) by (simp add: inv_def)
qed

lemma lookupAll_with_eq:
  "lookupAll_with f ord domain
     = Inr (concat (arrival ord (map (\<lambda>rType. sent_by (f Background domain rType)) types)))"
  by (simp add: lookupAll_with_def Let_def foldl_append_concat)

lemma concat_arrival_Nil:
  assumes "\<forall>xs\<in>set xss. xs = []"
  shows "concat (arrival ord xss) = []"
proof -
  from assms have "concat xss = []" by simp
  then have "mset (concat (arrival ord xss)) = {#}" by (simp add: mset_concat_arrival)
  then show ?thesis by simp
qed

section \<open>The claims\<close>

text \<open>
  C1. For every request, every schedule of the goroutines and every environment,
  \<open>BulkAnalyzeIPs\<close> returns, and returns a result: its \<open>Results\<close> hold exactly one
  outcome per address of the request (as many outcomes as addresses, their \<open>IP\<close> fields
  being the addresses of the request with their multiplicities), and
  \<open>Successful + Failed = Total = N\<close>. This holds for every length \<open>N\<close>, so for
  \<open>1 \<le> N \<le> 100\<close>.
\<close>

theorem bulk_one_outcome_per_target:
  "\<exists>r. BulkAnalyzeIPs e cs t0 c req = Some (Inr r) \<and>
       length (Results r) = length (IPs req) \<and>
       mset (map IP (Results r)) = mset (IPs req) \<and>
       Successful (summary r) + Failed (summary r) = Total (summary r) \<and>
       Total (summary r) = int (length (IPs req))"
proof -
  obtain r where r: "BulkAnalyzeIPs e cs t0 c req = Some (Inr r)"
    "length (Results r) = length (IPs req)"
    "Total (summary r) = int (length (IPs req))"
    "image_mset IP (mset (Results r)) = mset (IPs req)"
    "Successful (summary r) = int (length (filter (parses e) (IPs req)))"
    "Failed (summary r) = int (length (filter (\<lambda>t. \<not> parses e t) (IPs req)))"
    by (rule bulk_returns)
  have "length (filter (parses e) (IPs req)) + length (filter (\<lambda>t. \<not> parses e t) (IPs req))
        = length (IPs req)"
    by (rule sum_length_filter_compl)
  with r show ?thesis by auto
qed

theorem bulk_one_outcome_per_target_witness:
  "\<exists>r. BulkAnalyzeIPs stub [(1, 5), (0, 3), (2, 7)] 0 (Request 1) three = Some (Inr r) \<and>
       length (Results r) = length (IPs three) \<and>
       mset (map IP (Results r)) = mset [''1.1.1.1'', ''not-an-ip'', ''8.8.8.8''] \<and>
       Successful (summary r) + Failed (summary r) = Total (summary r) \<and>
       Total (summary r) = 3"
proof -
  have "IPs three = [''1.1.1.1'', ''not-an-ip'', ''8.8.8.8'']" by (simp add: three_def)
  then show ?thesis
    using bulk_one_outcome_per_target [of stub "[(1, 5), (0, 3), (2, 7)]" 0 "Request 1" three]
    by simp
qed

text \<open>
  C2. A failing \<open>AnalyzeIP\<close> never makes \<open>BulkAnalyzeIPs\<close> fail: the call returns a
  result, not an error. Every outcome in \<open>Results\<close> is, for the address it carries and
  some instant of the call, either what \<open>AnalyzeIP\<close> returned or, when it failed, the
  marker with that address, version \<open>Unknown\<close> and type \<open>error\<close>. When \<open>AnalyzeIP\<close>
  fails on every address, \<open>Successful = 0\<close> and \<open>Failed = Total = N\<close>.
\<close>

theorem bulk_failures_recorded:
  "\<exists>r. BulkAnalyzeIPs e cs t0 c req = Some (Inr r) \<and>
       mset (map IP (Results r)) = mset (IPs req) \<and>
       (\<forall>i\<in>set (Results r). \<exists>now.
          case AnalyzeIP e now c (IP i) of
            Inl er \<Rightarrow> i = \<lparr>IP = IP i, Version = ''Unknown'', Type = ''error'',
                            Geolocation = None, ISP = None, Security = None, DNS = None,
                            Timestamp = now\<rparr>
          | Inr i' \<Rightarrow> i = i') \<and>
       ((\<forall>t\<in>set (IPs req). \<forall>now. isl (AnalyzeIP e now c t)) \<longrightarrow>
          Successful (summary r) = 0 \<and> Failed (summary r) = int (length (IPs req)) \<and>
          Total (summary r) = int (length (IPs req)))"
proof -
  obtain r where r: "BulkAnalyzeIPs e cs t0 c req = Some (Inr r)"
    "Total (summary r) = int (length (IPs req))"
    "image_mset IP (mset (Results r)) = mset (IPs req)"
    "Successful (summary r) = int (length (filter (parses e) (IPs req)))"
    "Failed (summary r) = int (length (filter (\<lambda>t. \<not> parses e t) (IPs req)))"
    "\<forall>i\<in>set (Results r). \<exists>now. i = info (analyse e now c (IP i))"
    by (rule bulk_returns)
  have m: "\<exists>now. case AnalyzeIP e now c (IP i) of
            Inl er \<Rightarrow> i = \<lparr>IP = IP i, Version = ''Unknown'', Type = ''error'',
                            Geolocation = None, ISP = None, Security = None, DNS = None,
                            Timestamp = now\<rparr>
          | Inr i' \<Rightarrow> i = i'" if "i \<in> set (Results r)" for i
  proof -
    from r(6) that obtain now where "i = info (analyse e now c (IP i))" by blast
    then have "case AnalyzeIP e now c (IP i) of
            Inl er \<Rightarrow> i = \<lparr>IP = IP i, Version = ''Unknown'', Type = ''error'',
                            Geolocation = None, ISP = None, Security = None, DNS = None,
                            Timestamp = now\<rparr>
          | Inr i' \<Rightarrow> i = i'"
      by (cases "AnalyzeIP e now c (IP i)") (simp_all add: analyse_def)
    then show ?thesis ..
  qed
  have a: "Successful (summary r) = 0 \<and> Failed (summary r) = int (length (IPs req))"
    if "\<forall>t\<in>set (IPs req). \<forall>now. isl (AnalyzeIP e now c t)"
  proof -
    from that have "\<forall>t\<in>set (IPs req). \<not> parses e t" by (simp add: AnalyzeIP_isl)
    then have "filter (parses e) (IPs req) = []" "filter (\<lambda>t. \<not> parses e t) (IPs req) = IPs req"
      by (simp_all add: filter_empty_conv)
    with r show ?thesis by simp
  qed
  from r(1,2,3) m a show ?thesis by auto
qed

theorem bulk_failures_recorded_witness:
  "\<exists>r. BulkAnalyzeIPs stub [(2, 1), (1, 4)] 0 (Request 1) two_bad = Some (Inr r) \<and>
       mset (map IP (Results r)) = mset [''not-an-ip'', ''not-an-ip''] \<and>
       Successful (summary r) = 0 \<and> Failed (summary r) = 2 \<and> Total (summary r) = 2"
proof -
  have ips: "IPs two_bad = [''not-an-ip'', ''not-an-ip'']" by (simp add: two_bad_def)
  have "\<forall>t\<in>set (IPs two_bad). \<forall>now. isl (AnalyzeIP stub now (Request 1) t)"
    by (simp add: ips AnalyzeIP_def stub_def)
  with bulk_failures_recorded [of stub "[(2, 1), (1, 4)]" 0 "Request 1" two_bad]
  show ?thesis by (auto simp: ips)
qed

text \<open>
  C3. The handler answers a request with no address, and a request with more than 100
  addresses, with status 400, whatever the service method is, even one that never
  returns: the service is not called. A request with exactly 100 addresses is passed
  to \<open>BulkAnalyzeIPs\<close> under the context of the HTTP request, and the answer is the
  encoding of its result with status 200 (status 500 only if the encoder fails).
\<close>

theorem batch_boundary:
  "(length (IPs req) = 0 \<longrightarrow>
      BatchAnalyzeIPs bulk encode r_ctx (Inr req) = Some (http_Error ''No IPs provided'' 400)) \<and>
   (length (IPs req) > 100 \<longrightarrow>
      BatchAnalyzeIPs bulk encode r_ctx (Inr req)
        = Some (http_Error ''Too many IPs (maximum 100)'' 400)) \<and>
   (length (IPs req) = 100 \<longrightarrow>
      (\<exists>r. BulkAnalyzeIPs e cs t0 r_ctx req = Some (Inr r) \<and>
           BatchAnalyzeIPs (BulkAnalyzeIPs e cs t0) encode r_ctx (Inr req)
             = Some (case encode r of
                       Inl er \<Rightarrow> http_Error ''Failed to encode response'' 500
                     | Inr js \<Rightarrow> \<lparr>status = 200, content_type = ''application/json'',
                                   body = js\<rparr>)))"
proof -
  obtain r where r: "BulkAnalyzeIPs e cs t0 r_ctx req = Some (Inr r)"
    by (rule bulk_returns)
  then show ?thesis
    by (auto simp: BatchAnalyzeIPs_def split: sum.splits)
qed

theorem batch_boundary_witness:
  "BatchAnalyzeIPs never encode_stub (Request 1) (Inr empty_request)
     = Some \<lparr>status = 400, content_type = ''text/plain; charset=utf-8'',
             body = ''No IPs provided'' @ [CHR 0x0A]\<rparr> \<and>
   BatchAnalyzeIPs never encode_stub (Request 1) (Inr too_many)
     = Some \<lparr>status = 400, content_type = ''text/plain; charset=utf-8'',
             body = ''Too many IPs (maximum 100)'' @ [CHR 0x0A]\<rparr> \<and>
   BatchAnalyzeIPs (BulkAnalyzeIPs stub [] 0) encode_stub (Request 1) (Inr hundred)
     = Some \<lparr>status = 200, content_type = ''application/json'', body = ''{}''\<rparr>"
proof -
  have 0: "length (IPs empty_request) = 0" by (simp add: empty_request_def)
  have 1: "length (IPs too_many) > 100" by (simp add: too_many_def)
  have 2: "length (IPs hundred) = 100" by (simp add: hundred_def)
  from 0 batch_boundary [of empty_request never encode_stub "Request 1"]
  have a: "BatchAnalyzeIPs never encode_stub (Request 1) (Inr empty_request)
     = Some (http_Error ''No IPs provided'' 400)" by blast
  from 1 batch_boundary [of too_many never encode_stub "Request 1"]
  have b: "BatchAnalyzeIPs never encode_stub (Request 1) (Inr too_many)
     = Some (http_Error ''Too many IPs (maximum 100)'' 400)" by blast
  from 2 batch_boundary [of hundred _ encode_stub "Request 1" stub "[]" 0]
  have c: "BatchAnalyzeIPs (BulkAnalyzeIPs stub [] 0) encode_stub (Request 1) (Inr hundred)
     = Some \<lparr>status = 200, content_type = ''application/json'', body = ''{}''\<rparr>"
    by (auto simp: encode_stub_def)
  from a b c show ?thesis by (simp add: http_Error_def)
qed

text \<open>
  C4. In every state of every run of \<open>BulkAnalyzeIPs\<close>, the goroutines inside their call
  of \<open>AnalyzeIP\<close> are among the holders of the semaphore, the semaphore holds exactly
  one unit per holder, and it holds at most 10. A goroutine is a holder from its
  acquiring send until its deferred receive, which follows the send of its result
  whether the analysis failed or not. When the run is over, every goroutine of the
  request is done and the semaphore is empty: no unit is left behind.
\<close>

theorem semaphore_bound:
  "(\<forall>s\<in>set (trace e cs (init t0 c req)).
      in_flight s \<le> holders s \<and> holders s = length (semaphore s) \<and>
      length (semaphore s) \<le> 10) \<and>
   semaphore (last (trace e cs (init t0 c req))) = [] \<and>
   length (goroutines (last (trace e cs (init t0 c req)))) = length (IPs req) \<and>
   list_all (\<lambda>g. pc g = Done) (goroutines (last (trace e cs (init t0 c req))))"
proof -
  have A: "\<forall>s\<in>set (trace e cs (init t0 c req)).
      in_flight s \<le> holders s \<and> holders s = length (semaphore s) \<and> length (semaphore s) \<le> 10"
  proof
    fix s assume "s \<in> set (trace e cs (init t0 c req))"
    then have I: "inv e c req s" using trace_inv [OF inv_init] by blast
    have "in_flight s = length (filter (\<lambda>g. pc g = Analyze) (filter (\<lambda>g. holder (pc g)) (goroutines s)))"
      unfolding in_flight_def filter_filter
      by (rule arg_cong [where f = length], rule filter_cong) auto
    also have "\<dots> \<le> holders s"
      unfolding holders_def by (rule length_filter_le)
    finally have "in_flight s \<le> holders s" .
    moreover from I have "holders s = length (semaphore s)" "length (semaphore s) \<le> 10"
      by (simp_all add: inv_def holders_def flip: mset_filter)
    ultimately show "in_flight s \<le> holders s \<and> holders s = length (semaphore s) \<and> length (semaphore s) \<le> 10"
      by simp
  qed
  define z where "z = last (trace e cs (init t0 c req))"
  note F = run_final [OF z_def]
  from F(1,2) have B: "length (goroutines z) = length (IPs req)"
    by (simp add: inv_def main_ok_def)
  from F(3) have C: "list_all (\<lambda>g. pc g = Done) (goroutines z)"
    by (simp add: list_all_iff)
  from A B C F(5) show ?thesis unfolding z_def by blast
qed

theorem semaphore_bound_witness:
  "(let s = exec stub crowd (init 0 (Request 1) twelve)
    in s \<in> set (trace stub crowd (init 0 (Request 1) twelve)) \<and>
       in_flight s = 10 \<and> length (semaphore s) = 10 \<and> holders s = 10 \<and>
       length (filter (\<lambda>g. pc g = Acquire) (goroutines s)) = 2 \<and>
       enabled s = map Go [0..<10]) \<and>
   semaphore (last (trace stub crowd (init 0 (Request 1) twelve))) = []"
proof -
  define s where "s = exec stub crowd (init 0 (Request 1) twelve)"
  have v: "(in_flight s, length (filter (\<lambda>g. pc g = Acquire) (goroutines s)), enabled s)
           = (10, 2, map Go [0..<10])"
    unfolding s_def by code_simp
  have m: "s \<in> set (trace stub crowd (init 0 (Request 1) twelve))"
    unfolding s_def using exec_in_trace [of stub crowd _ "[]"] by simp
  note T = semaphore_bound [of stub crowd 0 "Request 1" twelve]
  from T m have "in_flight s \<le> holders s" "holders s = length (semaphore s)"
    "length (semaphore s) \<le> 10" by blast+
  moreover from T have "semaphore (last (trace stub crowd (init 0 (Request 1) twelve))) = []"
    by blast
  moreover from v have "in_flight s = 10" "length (filter (\<lambda>g. pc g = Acquire) (goroutines s)) = 2"
    "enabled s = map Go [0..<10]" by simp_all
  ultimately show ?thesis using m unfolding Let_def s_def [symmetric] by auto
qed

text \<open>
  C5. \<open>lookupAll\<close> never fails. Its records are, up to order, the records of the six
  lookups for \<open>A\<close>, \<open>AAAA\<close>, \<open>MX\<close>, \<open>NS\<close>, \<open>TXT\<close> and \<open>CNAME\<close> put together,
  where a lookup that failed contributes no record.
\<close>

theorem lookupAll_union:
  "\<exists>records. lookupAll e sch domain = Inr records \<and>
     mset records =
       (\<Sum>rType\<leftarrow>[''A'', ''AAAA'', ''MX'', ''NS'', ''TXT'', ''CNAME''].
          mset (case LookupDNS e sch (began sch rType) (ended sch rType) Background domain rType of
                  Inr res \<Rightarrow> Records res
                | Inl er \<Rightarrow> []))"
  by (simp add: lookupAll_eq mset_concat_arrival types_def sent_by_def)

theorem lookupAll_union_witness:
  "\<exists>records. lookupAll stub dns_stub_sched ''example.com'' = Inr records \<and>
     mset (map Value records) = mset [''1.1.1.1'', ''10 mail.example.com.'', ''v=spf1 -all'']"
proof -
  have b: "began dns_stub_sched t = 5" and e: "ended dns_stub_sched t = 9" for t
    by (simp_all add: dns_stub_sched_def)
  from lookupAll_union [of stub dns_stub_sched "''example.com''"]
  show ?thesis by (auto simp: b e LookupDNS_stub)
qed

text \<open>
  C10. Every record of every successful \<open>LookupDNS\<close>, for every domain and every record
  type (the seven single types and \<open>ALL\<close>), has \<open>TTL = 300\<close>; the resolver is never
  asked for a time to live.
\<close>

theorem LookupDNS_ttl:
  "LookupDNS e sch start fin c domain recordType = Inr res \<Longrightarrow>
     \<forall>r\<in>set (Records res). TTL r = 300"
  by (auto simp: LookupDNS.simps [of e sch start fin c domain recordType] Let_def
           split: if_splits dest!: finish_Inr dest: ttl_lookups ttl_all)

theorem LookupDNS_ttl_witness:
  "LookupDNS stub dns_stub_sched 0 2000000 (Request 1) ''example.com'' ''ALL''
     = Inr \<lparr>Domain = ''example.com'',
            Records = [\<lparr>Name = ''example.com'', rec_Type = ''A'', Value = ''1.1.1.1'', TTL = 300\<rparr>,
                       \<lparr>Name = ''example.com'', rec_Type = ''MX'',
                        Value = ''10 mail.example.com.'', TTL = 300\<rparr>,
                       \<lparr>Name = ''example.com'', rec_Type = ''TXT'', Value = ''v=spf1 -all'',
                        TTL = 300\<rparr>],
            dns_Timestamp = 0, QueryTime = 2\<rparr> \<and>
   list_all (\<lambda>r. TTL r = 300)
     (Records (projr (LookupDNS stub dns_stub_sched 0 2000000 (Request 1)
                        ''example.com'' ''ALL'')))"
proof -
  have b: "began dns_stub_sched t = 5" and e: "ended dns_stub_sched t = 9"
    and o: "order dns_stub_sched = [3, 1]" for t
    by (simp_all add: dns_stub_sched_def)
  have "lookupAll stub dns_stub_sched ''example.com''
      = Inr [\<lparr>Name = ''example.com'', rec_Type = ''A'', Value = ''1.1.1.1'', TTL = 300\<rparr>,
             \<lparr>Name = ''example.com'', rec_Type = ''MX'',
              Value = ''10 mail.example.com.'', TTL = 300\<rparr>,
             \<lparr>Name = ''example.com'', rec_Type = ''TXT'', Value = ''v=spf1 -all'',
              TTL = 300\<rparr>]"
    by (simp add: lookupAll_eq types_def b e o LookupDNS_stub sent_by_def)
  then have v: "LookupDNS stub dns_stub_sched 0 2000000 (Request 1) ''example.com'' ''ALL''
     = Inr \<lparr>Domain = ''example.com'',
            Records = [\<lparr>Name = ''example.com'', rec_Type = ''A'', Value = ''1.1.1.1'', TTL = 300\<rparr>,
                       \<lparr>Name = ''example.com'', rec_Type = ''MX'',
                        Value = ''10 mail.example.com.'', TTL = 300\<rparr>,
                       \<lparr>Name = ''example.com'', rec_Type = ''TXT'', Value = ''v=spf1 -all'',
                        TTL = 300\<rparr>],
            dns_Timestamp = 0, QueryTime = 2\<rparr>"
    by (simp add: LookupDNS.simps ToUpper_def ascii_upper_def finish_def)
  from LookupDNS_ttl [OF v]
  have "list_all (\<lambda>r. TTL r = 300)
     (Records (projr (LookupDNS stub dns_stub_sched 0 2000000 (Request 1)
                        ''example.com'' ''ALL'')))"
    unfolding list_all_iff by (simp only: v sum.sel)
  with v show ?thesis by (simp only: simp_thms)
qed

text \<open>
  C9. \<open>AnalyzeIP\<close> fails exactly when \<open>net.ParseIP\<close> returns nil. On a string that parses
  it returns a result whose \<open>Geolocation\<close>, \<open>ISP\<close> and \<open>DNS\<close> fields are set when the
  lookup behind them succeeded and left unset when it failed. So the \<open>Failed\<close> count of
  \<open>BulkAnalyzeIPs\<close> is the number of strings of the request that do not parse.
\<close>

theorem AnalyzeIP_errors:
  "(isl (AnalyzeIP e now c ipStr) \<longleftrightarrow> net_ParseIP e ipStr = None) \<and>
   (\<forall>ip. net_ParseIP e ipStr = Some ip \<longrightarrow>
      (\<exists>i. AnalyzeIP e now c ipStr = Inr i \<and> IP i = ipStr \<and>
           Geolocation i = (case getGeolocation e now c ipStr of Inr geo \<Rightarrow> Some geo | Inl er \<Rightarrow> None) \<and>
           ISP i = (case getISPInfo e now c ipStr of Inr isp \<Rightarrow> Some isp | Inl er \<Rightarrow> None) \<and>
           DNS i = (case getDNSInfo e now c ipStr of Inr dns \<Rightarrow> Some dns | Inl er \<Rightarrow> None))) \<and>
   (\<exists>r. BulkAnalyzeIPs e cs t0 c req = Some (Inr r) \<and>
        Failed (summary r) = int (length (filter (\<lambda>t. net_ParseIP e t = None) (IPs req))))"
proof -
  have 1: "isl (AnalyzeIP e now c ipStr) \<longleftrightarrow> net_ParseIP e ipStr = None"
    by (simp add: AnalyzeIP_isl parses_def)
  have 2: "\<exists>i. AnalyzeIP e now c ipStr = Inr i \<and> IP i = ipStr \<and>
           Geolocation i = (case getGeolocation e now c ipStr of Inr geo \<Rightarrow> Some geo | Inl er \<Rightarrow> None) \<and>
           ISP i = (case getISPInfo e now c ipStr of Inr isp \<Rightarrow> Some isp | Inl er \<Rightarrow> None) \<and>
           DNS i = (case getDNSInfo e now c ipStr of Inr dns \<Rightarrow> Some dns | Inl er \<Rightarrow> None)"
    if "net_ParseIP e ipStr = Some ip" for ip
    using that by (simp add: AnalyzeIP_def Let_def split: sum.splits)
  obtain r where r: "BulkAnalyzeIPs e cs t0 c req = Some (Inr r)"
    "Failed (summary r) = int (length (filter (\<lambda>t. \<not> parses e t) (IPs req)))"
    by (rule bulk_returns)
  then have 3: "\<exists>r. BulkAnalyzeIPs e cs t0 c req = Some (Inr r) \<and>
        Failed (summary r) = int (length (filter (\<lambda>t. net_ParseIP e t = None) (IPs req)))"
    by (simp add: parses_def)
  from 1 2 3 show ?thesis by blast
qed

theorem AnalyzeIP_errors_witness:
  "isl (AnalyzeIP stub 7 (Request 2) ''not-an-ip'') \<and>
   (\<exists>i. AnalyzeIP stub 7 (Request 2) ''8.8.8.8'' = Inr i \<and> IP i = ''8.8.8.8'' \<and>
        Geolocation i = None \<and> ISP i = None \<and> DNS i = None) \<and>
   (\<exists>r. BulkAnalyzeIPs stub [(1, 5), (0, 3), (2, 7)] 0 (Request 2) three = Some (Inr r) \<and>
        Failed (summary r) = 1)"
proof -
  have p: "net_ParseIP stub ''not-an-ip'' = None" "net_ParseIP stub ''8.8.8.8'' = Some [1, 1, 1, 1]"
    "net_ParseIP stub ''1.1.1.1'' = Some [1, 1, 1, 1]"
    by (simp_all add: stub_def)
  have g: "getGeolocation stub 7 (Request 2) ''8.8.8.8'' = Inl (Error ''unreachable'')"
    "getISPInfo stub 7 (Request 2) ''8.8.8.8'' = Inl (Error ''unreachable'')"
    "getDNSInfo stub 7 (Request 2) ''8.8.8.8'' = Inl (Error ''no such host'')"
    by (simp_all add: stub_def getDNSInfo_def getGeolocation_def getISPInfo_def)
  have f: "length (filter (\<lambda>t. net_ParseIP stub t = None) (IPs three)) = 1"
    by (simp add: three_def p)
  from AnalyzeIP_errors [of stub 7 "Request 2" "''not-an-ip''" "[]" 0 three] p(1)
  have a: "isl (AnalyzeIP stub 7 (Request 2) ''not-an-ip'')" by blast
  from AnalyzeIP_errors [of stub 7 "Request 2" "''8.8.8.8''" "[(1, 5), (0, 3), (2, 7)]" 0 three] p(2)
  show ?thesis using a by (simp add: g f)
qed

text \<open>
  C7. For the request \<open>["1.1.1.1", "not-an-ip", "8.8.8.8"]\<close> and an environment in which,
  of the three, only \<open>not-an-ip\<close> does not parse (so \<open>AnalyzeIP\<close> fails on it alone):
  \<open>Total = 3\<close>, \<open>Successful = 2\<close>, \<open>Failed = 1\<close>, and the one outcome of type
  \<open>error\<close> carries the address \<open>not-an-ip\<close>, for every schedule.
\<close>

theorem bulk_example:
  assumes "net_ParseIP e ''1.1.1.1'' \<noteq> None" and "net_ParseIP e ''not-an-ip'' = None"
    and "net_ParseIP e ''8.8.8.8'' \<noteq> None"
  shows "\<exists>r. BulkAnalyzeIPs e cs t0 c \<lparr>IPs = [''1.1.1.1'', ''not-an-ip'', ''8.8.8.8''], options = opts\<rparr>
               = Some (Inr r) \<and>
             Total (summary r) = 3 \<and> Successful (summary r) = 2 \<and> Failed (summary r) = 1 \<and>
             length (Results r) = 3 \<and>
             map IP (filter (\<lambda>i. Type i = ''error'') (Results r)) = [''not-an-ip'']"
proof -
  let ?req = "\<lparr>IPs = [''1.1.1.1'', ''not-an-ip'', ''8.8.8.8''], options = opts\<rparr>"
  obtain r where r: "BulkAnalyzeIPs e cs t0 c ?req = Some (Inr r)"
    "length (Results r) = length (IPs ?req)"
    "Total (summary r) = int (length (IPs ?req))"
    "image_mset IP (mset (Results r)) = mset (IPs ?req)"
    "Successful (summary r) = int (length (filter (parses e) (IPs ?req)))"
    "Failed (summary r) = int (length (filter (\<lambda>t. \<not> parses e t) (IPs ?req)))"
    "\<forall>i\<in>set (Results r). \<exists>now. i = info (analyse e now c (IP i))"
    by (rule bulk_returns)
  from assms have p: "parses e ''1.1.1.1''" "\<not> parses e ''not-an-ip''" "parses e ''8.8.8.8''"
    by (simp_all add: parses_def)
  from bulk_markers [OF r(4,7)] p
  have "mset (map IP (filter (\<lambda>i. Type i = ''error'') (Results r))) = {#''not-an-ip''#}"
    by simp
  then have "map IP (filter (\<lambda>i. Type i = ''error'') (Results r)) = [''not-an-ip'']"
    by (simp only: mset_single_iff)
  with r p show ?thesis by simp
qed

theorem bulk_example_witness:
  "\<exists>r. BulkAnalyzeIPs stub [(1, 5), (0, 3), (2, 7)] 0 (Request 1)
          \<lparr>IPs = [''1.1.1.1'', ''not-an-ip'', ''8.8.8.8''], options = no_options\<rparr>
          = Some (Inr r) \<and>
        Total (summary r) = 3 \<and> Successful (summary r) = 2 \<and> Failed (summary r) = 1 \<and>
        length (Results r) = 3 \<and>
        map IP (filter (\<lambda>i. Type i = ''error'') (Results r)) = [''not-an-ip'']"
proof -
  have "net_ParseIP stub ''1.1.1.1'' \<noteq> None" "net_ParseIP stub ''not-an-ip'' = None"
    "net_ParseIP stub ''8.8.8.8'' \<noteq> None"
    by (simp_all add: stub_def)
  then show ?thesis by (rule bulk_example)
qed

text \<open>
  C8. Two runs of \<open>BulkAnalyzeIPs\<close> on the same request in the same environment, under
  any two schedules, starting instants and contexts, both return, with the same
  \<open>Successful\<close> and the same \<open>Failed\<close>. (The witness has two runs whose \<open>Duration\<close>
  differs.)
\<close>

theorem bulk_counts_repeatable:
  "\<exists>r1 r2. BulkAnalyzeIPs e cs1 t1 c1 req = Some (Inr r1) \<and>
           BulkAnalyzeIPs e cs2 t2 c2 req = Some (Inr r2) \<and>
           Successful (summary r1) = Successful (summary r2) \<and>
           Failed (summary r1) = Failed (summary r2)"
proof -
  obtain r1 where r1: "BulkAnalyzeIPs e cs1 t1 c1 req = Some (Inr r1)"
    "Successful (summary r1) = int (length (filter (parses e) (IPs req)))"
    "Failed (summary r1) = int (length (filter (\<lambda>t. \<not> parses e t) (IPs req)))"
    by (rule bulk_returns)
  obtain r2 where r2: "BulkAnalyzeIPs e cs2 t2 c2 req = Some (Inr r2)"
    "Successful (summary r2) = int (length (filter (parses e) (IPs req)))"
    "Failed (summary r2) = int (length (filter (\<lambda>t. \<not> parses e t) (IPs req)))"
    by (rule bulk_returns)
  from r1 r2 show ?thesis by simp
qed

theorem bulk_counts_repeatable_witness:
  "(\<exists>r1 r2. BulkAnalyzeIPs stub [(1, 5), (0, 3), (2, 7)] 0 (Request 1) three = Some (Inr r1) \<and>
            BulkAnalyzeIPs stub slow 50 (Request 2) three = Some (Inr r2) \<and>
            Successful (summary r1) = Successful (summary r2) \<and>
            Failed (summary r1) = Failed (summary r2)) \<and>
   map_option (map_sum id (\<lambda>r. Duration (summary r)))
     (BulkAnalyzeIPs stub [(1, 5), (0, 3), (2, 7)] 0 (Request 1) three) = Some (Inr (Float (1 / 100000))) \<and>
   map_option (map_sum id (\<lambda>r. Duration (summary r)))
     (BulkAnalyzeIPs stub slow 50 (Request 2) three) = Some (Inr (Float (11 / 500000)))"
proof -
  have "map_option (map_sum id (\<lambda>r. Duration (summary r)))
     (BulkAnalyzeIPs stub [(1, 5), (0, 3), (2, 7)] 0 (Request 1) three) = Some (Inr (Float (1 / 100000)))"
    by code_simp
  moreover have "map_option (map_sum id (\<lambda>r. Duration (summary r)))
     (BulkAnalyzeIPs stub slow 50 (Request 2) three) = Some (Inr (Float (11 / 500000)))"
    by code_simp
  ultimately show ?thesis
    using bulk_counts_repeatable [of stub "[(1, 5), (0, 3), (2, 7)]" 0 "Request 1" three slow 50 "Request 2"]
    by blast
qed

text \<open>
  C6, as stated, fails for the DNS fan-out. \<open>lookupAll\<close> has no context parameter, so no
  context of a caller can reach it, and it calls \<open>s.LookupDNS\<close> with
  \<open>context.Background()\<close>: run on a per-type lookup that reports the context it is given,
  it collects six records that all report the background context, where a call under
  the context of HTTP request 1 would have reported a request context.
\<close>

theorem dns_context_counterexample:
  "lookupAll_with reporting [] ''example.com''
     = Inr [\<lparr>Name = ''example.com'', rec_Type = ''A'', Value = ''context.Background'', TTL = 300\<rparr>,
            \<lparr>Name = ''example.com'', rec_Type = ''AAAA'', Value = ''context.Background'', TTL = 300\<rparr>,
            \<lparr>Name = ''example.com'', rec_Type = ''MX'', Value = ''context.Background'', TTL = 300\<rparr>,
            \<lparr>Name = ''example.com'', rec_Type = ''NS'', Value = ''context.Background'', TTL = 300\<rparr>,
            \<lparr>Name = ''example.com'', rec_Type = ''TXT'', Value = ''context.Background'', TTL = 300\<rparr>,
            \<lparr>Name = ''example.com'', rec_Type = ''CNAME'', Value = ''context.Background'',
             TTL = 300\<rparr>] \<and>
   sent_by (reporting (Request 1) ''example.com'' ''A'')
     = [\<lparr>Name = ''example.com'', rec_Type = ''A'', Value = ''request context'', TTL = 300\<rparr>]"
  by (simp add: lookupAll_with_eq types_def reporting_def sent_by_def)

text \<open>
  C6, amended. In the bulk fan-out every \<open>AnalyzeIP\<close> call, in every state of every run,
  was given the caller's context; when the run is over exactly one call has been made
  per address of the request, and every outcome returned is what the goroutine body
  computes from \<open>AnalyzeIP\<close> under the caller's context. In the DNS fan-out the per-type
  lookup is only ever called under the background context, whatever the lookup is:
  making it fail under every other context changes nothing, and making it fail under
  the background context leaves no record. \<open>lookupAll\<close> is this fan-out over
  \<open>LookupDNS\<close>, which returns the same whatever context it is given.
\<close>

theorem context_passed:
  "(\<forall>s\<in>set (trace e cs (init t0 c req)). \<forall>call\<in>set (calls s). fst call = c) \<and>
   mset (map snd (calls (last (trace e cs (init t0 c req))))) = mset (IPs req) \<and>
   lookupAll_with (\<lambda>c' d t. if c' = Background then resolve c' d t else Inl er) ord domain
     = lookupAll_with resolve ord domain \<and>
   lookupAll_with (\<lambda>c' d t. if c' = Background then Inl er else resolve c' d t) ord domain
     = Inr [] \<and>
   lookupAll e sch domain
     = lookupAll_with (\<lambda>c' d t. LookupDNS e sch (began sch t) (ended sch t) c' d t)
         (order sch) domain \<and>
   LookupDNS e sch start fin c domain recordType
     = LookupDNS e sch start fin Background domain recordType \<and>
   (\<exists>r. BulkAnalyzeIPs e cs t0 c req = Some (Inr r) \<and>
        (\<forall>i\<in>set (Results r). \<exists>now. i = info (analyse e now c (IP i))))"
proof -
  have A: "\<forall>s\<in>set (trace e cs (init t0 c req)). \<forall>call\<in>set (calls s). fst call = c"
  proof
    fix s assume "s \<in> set (trace e cs (init t0 c req))"
    then have "inv e c req s" using trace_inv [OF inv_init] by blast
    then show "\<forall>call\<in>set (calls s). fst call = c" by (simp add: inv_def)
  qed
  have B: "mset (map snd (calls (last (trace e cs (init t0 c req))))) = mset (IPs req)"
    by (rule calls_final) simp
  have C: "lookupAll_with (\<lambda>c' d t. if c' = Background then resolve c' d t else Inl er) ord domain
     = lookupAll_with resolve ord domain"
    by (simp add: lookupAll_with_def)
  have D: "lookupAll_with (\<lambda>c' d t. if c' = Background then Inl er else resolve c' d t) ord domain
     = Inr []"
    by (simp add: lookupAll_with_eq concat_arrival_Nil sent_by_def)
  have D': "lookupAll e sch domain
     = lookupAll_with (\<lambda>c' d t. LookupDNS e sch (began sch t) (ended sch t) c' d t)
         (order sch) domain"
    by (simp add: lookupAll.simps)
  have E: "LookupDNS e sch start fin c domain recordType
     = LookupDNS e sch start fin Background domain recordType"
    by (simp add: LookupDNS.simps)
  obtain r where "BulkAnalyzeIPs e cs t0 c req = Some (Inr r)"
    "\<forall>i\<in>set (Results r). \<exists>now. i = info (analyse e now c (IP i))"
    by (rule bulk_returns)
  then have F: "\<exists>r. BulkAnalyzeIPs e cs t0 c req = Some (Inr r) \<and>
        (\<forall>i\<in>set (Results r). \<exists>now. i = info (analyse e now c (IP i)))"
    by blast
  from A B C D D' E F show ?thesis by blast
qed

theorem context_passed_witness:
  "map fst (calls (last (trace stub [(1, 5), (0, 3), (2, 7)] (init 0 (Request 1) three))))
     = [Request 1, Request 1, Request 1] \<and>
   mset (map snd (calls (last (trace stub [(1, 5), (0, 3), (2, 7)] (init 0 (Request 1) three)))))
     = mset [''1.1.1.1'', ''not-an-ip'', ''8.8.8.8''] \<and>
   lookupAll_with
       (\<lambda>c' d t. if c' = Background then reporting c' d t else Inl (Error ''context canceled''))
       [3, 1] ''example.com''
     = lookupAll_with reporting [3, 1] ''example.com'' \<and>
   lookupAll_with
       (\<lambda>c' d t. if c' = Background then Inl (Error ''context canceled'') else reporting c' d t)
       [3, 1] ''example.com''
     = Inr [] \<and>
   LookupDNS stub dns_stub_sched 5 9 (Request 1) ''example.com'' ''A''
     = LookupDNS stub dns_stub_sched 5 9 Background ''example.com'' ''A''"
proof -
  have v: "map fst (calls (last (trace stub [(1, 5), (0, 3), (2, 7)] (init 0 (Request 1) three))))
     = [Request 1, Request 1, Request 1]"
    by code_simp
  have i: "IPs three = [''1.1.1.1'', ''not-an-ip'', ''8.8.8.8'']" by (simp add: three_def)
  from context_passed [of stub "[(1, 5), (0, 3), (2, 7)]" 0 "Request 1" three reporting
      "Error ''context canceled''" "[3, 1]" "''example.com''" dns_stub_sched 5 9 "''A''"] v i
  show ?thesis by simp
qed

end
